theory Spec2Isabelle
  imports Main
begin

section \<open>Library functions the scraper calls\<close>

text \<open>
  The scraper (\<^verbatim>\<open>src/scraper_for_reviews.py\<close>) is a Python script that drives a browser.
  A Python \<^verbatim>\<open>str\<close> is modelled as a \<^typ>\<open>string\<close> of bytes: its UTF-8 bytes, or, for a
  \<^verbatim>\<open>str\<close> with a lone surrogate, which has no UTF-8 form, some other bytes. The functions of
  Python's standard library that the script calls on strings are not code of the
  repository; they are taken as parameters, collected in one record, so that every theorem
  below holds for whatever these functions compute:
  \<^item> \<open>encodes s\<close> tells whether \<^verbatim>\<open>s.encode("utf-8")\<close> succeeds (it raises
    \<^verbatim>\<open>UnicodeEncodeError\<close> on a lone surrogate), and \<open>sha1_hex s\<close> is then
    \<^verbatim>\<open>hashlib.sha1(s.encode("utf-8")).hexdigest()\<close>;
  \<^item> \<open>str_lower\<close> and \<open>str_strip\<close> are \<^verbatim>\<open>str.lower\<close> and \<^verbatim>\<open>str.strip\<close>;
  \<^item> \<open>float_of s\<close> is \<^verbatim>\<open>float(s)\<close>, \<open>None\<close> when it raises; the type \<open>'f\<close> stands for
    Python's floats;
  \<^item> \<open>int_of s\<close> is \<^verbatim>\<open>int(s)\<close>, \<open>None\<close> when it raises \<^verbatim>\<open>ValueError\<close> (on a string of
    digits: when it has more than 4300 of them);
  \<^item> \<open>re_caption s\<close> is \<^verbatim>\<open>CAPTION_RE.match(s)\<close>: the groups \<^verbatim>\<open>title\<close> and \<^verbatim>\<open>level\<close>,
    \<open>None\<close> when the pattern does not match;
  \<^item> \<open>re_org_id s\<close> is group 1 of \<^verbatim>\<open>ORG_ID_RE.search(s)\<close>, \<open>None\<close> when there is no match.

  What the script reads from the browser, the operator and the output file is given to the
  model as observations. Wherever a call that the script leaves unguarded can raise (a call
  of the browser, \<^verbatim>\<open>input\<close>, \<^verbatim>\<open>int\<close>, \<^verbatim>\<open>encode\<close>, \<^verbatim>\<open>out_f.write\<close>, \<^verbatim>\<open>out_f.flush\<close>,
  \<^verbatim>\<open>time.sleep\<close>), the exception is a result of the model. Writing to the terminal
  (\<^verbatim>\<open>print\<close>) is taken to succeed.
\<close>

record 'f pylib =
  sha1_hex :: "string \<Rightarrow> string"
  encodes :: "string \<Rightarrow> bool"
  str_lower :: "string \<Rightarrow> string"
  str_strip :: "string \<Rightarrow> string"
  float_of :: "string \<Rightarrow> 'f option"
  int_of :: "string \<Rightarrow> int option"
  re_caption :: "string \<Rightarrow> (string \<times> string) option"
  re_org_id :: "string \<Rightarrow> string option"

text \<open>
  The exceptions that \<^verbatim>\<open>main\<close> tells apart, and those that the script's own calls raise:
  \<^verbatim>\<open>EOFError\<close> of \<^verbatim>\<open>input()\<close>, \<^verbatim>\<open>ValueError\<close> of \<^verbatim>\<open>int()\<close>, \<^verbatim>\<open>UnicodeEncodeError\<close> of
  \<^verbatim>\<open>encode\<close>. \<open>OtherException\<close> stands for every other subclass of \<^verbatim>\<open>Exception\<close>.
\<close>

datatype exc =
  PwTimeoutError | KeyboardInterrupt | EOFError | ValueError | UnicodeEncodeError | OtherException

text \<open>\<^verbatim>\<open>sha1\<close> (lines 58-59).\<close>

definition sha1 :: "'f pylib \<Rightarrow> string \<Rightarrow> exc + string" where
  "sha1 L s = (if encodes L s then Inr (sha1_hex L s) else Inl UnicodeEncodeError)"

text \<open>Python's \<^verbatim>\<open>m in s\<close> on strings: \<open>m\<close> occurs in \<open>s\<close> as a contiguous substring.\<close>

fun contains :: "string \<Rightarrow> string \<Rightarrow> bool" where
  "contains m [] = (m = [])"
| "contains m (c # cs) = (take (length m) (c # cs) = m \<or> contains m cs)"

section \<open>The block detector\<close>

text \<open>
  What the detector reads from the browser page: the current address, and the visible text
  of the body, \<open>None\<close> when \<^verbatim>\<open>inner_text(timeout=1500)\<close> raises (an error or the timeout).
  Both are Python strings, on which \<^verbatim>\<open>x or ""\<close> changes nothing.
\<close>

record page =
  page_url :: string
  body_text :: "string option"

definition markers :: "string list" where
  "markers =
    [[CHR 0xD0, CHR 0xBF, CHR 0xD0, CHR 0xBE, CHR 0xD0, CHR 0xB4, CHR 0xD1, CHR 0x82,
      CHR 0xD0, CHR 0xB2, CHR 0xD0, CHR 0xB5, CHR 0xD1, CHR 0x80, CHR 0xD0, CHR 0xB4,
      CHR 0xD0, CHR 0xB8, CHR 0xD1, CHR 0x82, CHR 0xD0, CHR 0xB5, CHR 0x2C, CHR 0x20,
      CHR 0xD1, CHR 0x87, CHR 0xD1, CHR 0x82, CHR 0xD0, CHR 0xBE, CHR 0x20, CHR 0xD0,
      CHR 0xB2, CHR 0xD1, CHR 0x8B, CHR 0x20, CHR 0xD0, CHR 0xBD, CHR 0xD0, CHR 0xB5,
      CHR 0x20, CHR 0xD1, CHR 0x80, CHR 0xD0, CHR 0xBE, CHR 0xD0, CHR 0xB1, CHR 0xD0,
      CHR 0xBE, CHR 0xD1, CHR 0x82],
     [CHR 0xD1, CHR 0x8F, CHR 0x20, CHR 0xD0, CHR 0xBD, CHR 0xD0, CHR 0xB5, CHR 0x20,
      CHR 0xD1, CHR 0x80, CHR 0xD0, CHR 0xBE, CHR 0xD0, CHR 0xB1, CHR 0xD0, CHR 0xBE,
      CHR 0xD1, CHR 0x82],
     ''captcha'',
     ''robot'']"

text \<open>\<^verbatim>\<open>detect_captcha_or_block\<close> (lines 82-92).\<close>

definition detect_captcha_or_block :: "'f pylib \<Rightarrow> page \<Rightarrow> bool" where
  "detect_captcha_or_block L p =
    (let url = str_lower L (page_url p) in
     if contains ''showcaptcha'' url \<or> contains ''captcha'' url then True
     else (case body_text p of
             None \<Rightarrow> False
           | Some t \<Rightarrow> (let txt = str_lower L t in list_ex (\<lambda>m. contains m txt) markers)))"

section \<open>The recovery handler\<close>

text \<open>
  \<^verbatim>\<open>handle_captcha_interactive\<close> (lines 254-283). What the operator types is a finite list of
  lines; each comes with the page as the detector finds it when that line has been read.
  \<^verbatim>\<open>input()\<close> raises \<^verbatim>\<open>EOFError\<close> when the lines are used up. The result is the decision
  and the lines left unread.
\<close>

type_synonym operator = "(string \<times> page) list"

fun prompt_loop :: "'f pylib \<Rightarrow> operator \<Rightarrow> (exc + string) \<times> operator" where
  "prompt_loop L [] = (Inl EOFError, [])"
| "prompt_loop L ((line, pg) # rest) =
    (let cmd = str_lower L (str_strip L line) in
     if cmd = ''q'' then (Inr ''quit'', rest)
     else if cmd = ''s'' then (Inr ''skip'', rest)
     else if \<not> detect_captcha_or_block L pg then (Inr ''continue'', rest)
     else prompt_loop L rest)"

definition handle_captcha_interactive ::
  "'f pylib \<Rightarrow> bool \<Rightarrow> operator \<Rightarrow> (exc + string) \<times> operator" where
  "handle_captcha_interactive L headful inp =
    (if \<not> headful then (Inr ''skip'', inp) else prompt_loop L inp)"

section \<open>Parsing helpers\<close>

text \<open>\<^verbatim>\<open>to_float\<close> (lines 182-189); \<^verbatim>\<open>x.replace(",", ".")\<close> works character by character.\<close>

definition replace_comma :: "string \<Rightarrow> string" where
  "replace_comma x = map (\<lambda>c. if c = CHR '','' then CHR ''.'' else c) x"

definition to_float :: "'f pylib \<Rightarrow> string \<Rightarrow> 'f option" where
  "to_float L x0 =
    (let x = str_strip L x0 in
     if x = [] then None else float_of L (replace_comma x))"

text \<open>\<^verbatim>\<open>parse_caption\<close> (lines 174-179); \<^verbatim>\<open>int(m.group("level"))\<close> can raise.\<close>

definition parse_caption :: "'f pylib \<Rightarrow> string \<Rightarrow> exc + string \<times> string \<times> int option" where
  "parse_caption L caption0 =
    (let caption = str_strip L caption0 in
     case re_caption L caption of
       None \<Rightarrow> Inr (caption, [], None)
     | Some (title, level) \<Rightarrow>
         (case int_of L level of
            None \<Rightarrow> Inl ValueError
          | Some n \<Rightarrow> Inr (caption, str_strip L title, Some n)))"

text \<open>Line 454: \<^verbatim>\<open>date_iso.split("T")[0] if "T" in date_iso else date_iso\<close>.\<close>

definition date_ymd_of :: "string \<Rightarrow> string" where
  "date_ymd_of date_iso =
    (if CHR ''T'' \<in> set date_iso then takeWhile (\<lambda>c. c \<noteq> CHR ''T'') date_iso else date_iso)"

section \<open>Extracting the newly visible cards\<close>

text \<open>
  One review card of the page, as the script \<^verbatim>\<open>js_extract_new\<close> (lines 347-418) reads it:
  \<^item> \<open>c_pos\<close> is \<^verbatim>\<open>parseInt(card.getAttribute("aria-posinset") || "0", 10)\<close>, \<open>None\<close> for NaN;
  \<^item> \<open>c_text\<close> is the value of \<^verbatim>\<open>text\<close> after the expand-and-read steps (lines 389-399);
  \<^item> \<open>c_author_id\<close>, \<open>c_caption\<close>, \<open>c_rating_raw\<close> and \<open>c_date_iso\<close> are the four values read
    from the card's link, caption and \<^verbatim>\<open>meta\<close> elements (lines 401-407).
  The counters \<^verbatim>\<open>expandClicks\<close> and \<^verbatim>\<open>stillEllipsis\<close> only feed debug output and are left out.
  One field is not read by the script: \<open>c_write\<close> tells whether \<^verbatim>\<open>out_f.write\<close> (line 480)
  raises when the row of this card is written (an error of the output file). It travels
  with the card, and with the item made of it, to the place where the row is written.
\<close>

record card =
  c_pos :: "int option"
  c_author_id :: string
  c_caption :: string
  c_rating_raw :: string
  c_date_iso :: string
  c_text :: string
  c_write :: "exc option"

record item =
  it_pos :: int
  it_author_id :: string
  it_caption :: string
  it_rating_raw :: string
  it_date_iso :: string
  it_text :: string
  it_write :: "exc option"

text \<open>The \<^verbatim>\<open>for (const card of els)\<close> loop, lines 384-414.\<close>

fun js_loop :: "card list \<Rightarrow> int \<Rightarrow> int \<Rightarrow> item list \<Rightarrow> item list \<times> int" where
  "js_loop [] maxPos maxSeen items = (items, maxSeen)"
| "js_loop (c # cs) maxPos maxSeen items =
    (case c_pos c of
       None \<Rightarrow> js_loop cs maxPos maxSeen items
     | Some pos \<Rightarrow>
         if pos = 0 \<or> pos \<le> maxPos then js_loop cs maxPos maxSeen items
         else js_loop cs maxPos (if pos > maxSeen then pos else maxSeen)
                (items @ [\<lparr>it_pos = pos, it_author_id = c_author_id c, it_caption = c_caption c,
                           it_rating_raw = c_rating_raw c, it_date_iso = c_date_iso c,
                           it_text = c_text c, it_write = c_write c\<rparr>]))"

definition js_extract_new :: "card list \<Rightarrow> int \<Rightarrow> item list \<times> int" where
  "js_extract_new els maxPos = js_loop els maxPos maxPos []"

section \<open>The collection loop of one source\<close>

text \<open>The row written for one review (lines 463-478).\<close>

record 'f row =
  row_review_key :: string
  row_org_id :: string
  row_restaurant_name :: string
  row_author_id :: string
  row_author_caption :: string
  row_author_badge :: string
  row_author_level :: "int option"
  row_date_iso :: string
  row_date :: string
  row_rating_raw :: string
  row_rating :: "'f option"
  row_text :: string
  row_source_url :: string
  row_scraped_at_unix :: int

text \<open>
  The parameters of \<^verbatim>\<open>stream_scroll_collect\<close> that its control flow and its rows depend on.
  The selectors, the delay and the step ratio only reach the browser; \<^verbatim>\<open>debug\<close> only prints.
\<close>

record params =
  org_id :: string
  restaurant_name :: string
  source_url :: string
  max_rounds :: int
  no_progress_limit :: int
  max_reviews :: int
  headful :: bool

text \<open>
  The local variables of \<^verbatim>\<open>stream_scroll_collect\<close> together with the two objects it mutates:
  the output file \<open>out_f\<close> (the rows appended since it was opened) and the set \<open>seen_keys\<close>.
\<close>

record 'f cstate =
  max_pos_parsed :: int
  no_progress :: int
  total_written :: int
  out_f :: "'f row list"
  seen_keys :: "string set"

text \<open>Line 459: the string that is hashed, and the key of a review.\<close>

definition key_text :: "string \<Rightarrow> string \<Rightarrow> string \<Rightarrow> string \<Rightarrow> string \<Rightarrow> string" where
  "key_text org author_id date_iso rating_raw txt =
    org @ ''|'' @ author_id @ ''|'' @ date_iso @ ''|'' @ rating_raw @ ''|'' @ txt"

definition review_key_of ::
  "'f pylib \<Rightarrow> string \<Rightarrow> string \<Rightarrow> string \<Rightarrow> string \<Rightarrow> string \<Rightarrow> string" where
  "review_key_of L org author_id date_iso rating_raw txt =
    sha1_hex L (key_text org author_id date_iso rating_raw txt)"

text \<open>
  The loop \<^verbatim>\<open>for it in items\<close> (lines 442-489), up to the flush of line 486. The second
  component of the result is \<open>Inr True\<close> when the cap check of line 485 has fired (the
  function then flushes and returns), \<open>Inr False\<close> when the loop has run through, and
  \<open>Inl e\<close> when \<^verbatim>\<open>parse_caption\<close>, \<^verbatim>\<open>sha1\<close> or \<^verbatim>\<open>out_f.write\<close> has raised \<open>e\<close>: none of
  them is guarded, so the exception leaves the loop and the function. \<open>clock k\<close> is the value
  of \<^verbatim>\<open>int(time.time())\<close> read for the row that is built when \<open>k\<close> rows have been written.
\<close>

fun write_items ::
  "'f pylib \<Rightarrow> (nat \<Rightarrow> int) \<Rightarrow> params \<Rightarrow> item list \<Rightarrow> 'f cstate \<Rightarrow> 'f cstate \<times> (exc + bool)" where
  "write_items L clock P [] s = (s, Inr False)"
| "write_items L clock P (it # its) s =
    (let txt = str_strip L (it_text it) in
     if txt = [] then write_items L clock P its s
     else
       let author_id = it_author_id it;
           rating_raw = it_rating_raw it;
           date_iso = it_date_iso it;
           date_ymd = date_ymd_of date_iso
       in
         case parse_caption L (it_caption it) of
           Inl e \<Rightarrow> (s, Inl e)
         | Inr (caption, badge, level) \<Rightarrow>
             let rating = to_float L rating_raw in
             case sha1 L (key_text (org_id P) author_id date_iso rating_raw txt) of
               Inl e \<Rightarrow> (s, Inl e)
             | Inr review_key \<Rightarrow>
                 if review_key \<in> seen_keys s then write_items L clock P its s
                 else
                   let row = \<lparr>row_review_key = review_key, row_org_id = org_id P,
                              row_restaurant_name = restaurant_name P,
                              row_author_id = author_id, row_author_caption = caption,
                              row_author_badge = badge, row_author_level = level,
                              row_date_iso = date_iso, row_date = date_ymd,
                              row_rating_raw = rating_raw, row_rating = rating,
                              row_text = txt, row_source_url = source_url P,
                              row_scraped_at_unix = clock (length (out_f s))\<rparr>
                   in
                     case it_write it of
                       Some e \<Rightarrow> (s, Inl e)
                     | None \<Rightarrow>
                         let s' = s\<lparr>out_f := out_f s @ [row],
                                    total_written := total_written s + 1,
                                    seen_keys := insert review_key (seen_keys s)\<rparr>
                         in
                           if max_reviews P > 0 \<and> total_written s' \<ge> max_reviews P
                           then (s', Inr True)
                           else write_items L clock P its s')"

text \<open>
  What one round of the loop observes: the page the detector reads, the lines the operator
  types if the round is blocked, the outcome of \<^verbatim>\<open>page.eval_on_selector_all\<close> (an exception,
  or the cards the script is run on), whether \<^verbatim>\<open>out_f.flush()\<close> raises (line 486 or 491),
  and whether the scroll step with its wait (\<^verbatim>\<open>scroll_real_container\<close>,
  \<^verbatim>\<open>page.wait_for_timeout\<close>) raises.
\<close>

record round_obs =
  r_page :: page
  r_operator :: operator
  r_eval :: "exc + card list"
  r_flush :: "exc option"
  r_scroll :: "exc option"

text \<open>How one round ends: next round, \<^verbatim>\<open>break\<close>, \<^verbatim>\<open>return\<close>, or an exception that propagates.\<close>

datatype flow = NextRound | Break | Return int | Raised exc

text \<open>Lines 507-511 (and 432-436): the stall check, then the scroll step.\<close>

definition stall_check_and_scroll :: "params \<Rightarrow> round_obs \<Rightarrow> 'f cstate \<Rightarrow> 'f cstate \<times> flow" where
  "stall_check_and_scroll P r s =
    (if no_progress s \<ge> no_progress_limit P then (s, Break)
     else (case r_scroll r of Some e \<Rightarrow> (s, Raised e) | None \<Rightarrow> (s, NextRound)))"

text \<open>Lines 493-498: the watermark and the stall counter.\<close>

definition advance_watermark :: "int \<Rightarrow> 'f cstate \<Rightarrow> 'f cstate" where
  "advance_watermark max_seen s =
    (let progressed = max_seen > max_pos_parsed s in
     if progressed then s\<lparr>max_pos_parsed := max_seen, no_progress := 0\<rparr>
     else s\<lparr>no_progress := no_progress s + 1\<rparr>)"

text \<open>
  Lines 426-511: a round once the block check has let it pass. When the cap check has fired,
  lines 486-489 flush and return; when an exception has left the item loop, it leaves the
  function; when the item loop has run through, line 491 flushes.
\<close>

definition extract_and_write ::
  "'f pylib \<Rightarrow> (nat \<Rightarrow> int) \<Rightarrow> params \<Rightarrow> round_obs \<Rightarrow> 'f cstate \<Rightarrow> 'f cstate \<times> flow" where
  "extract_and_write L clock P r s =
    (case r_eval r of
       Inl e \<Rightarrow>
         if e = PwTimeoutError
         then stall_check_and_scroll P r (s\<lparr>no_progress := no_progress s + 1\<rparr>)
         else (s, Raised e)
     | Inr els \<Rightarrow>
         (let (items, max_seen) = js_extract_new els (max_pos_parsed s);
              (s2, ended) = write_items L clock P items s
          in case ended of
               Inl e \<Rightarrow> (s2, Raised e)
             | Inr returned \<Rightarrow>
                 (case r_flush r of
                    Some e \<Rightarrow> (s2, Raised e)
                  | None \<Rightarrow>
                      if returned then (s2, Return (total_written s2))
                      else stall_check_and_scroll P r (advance_watermark max_seen s2))))"

text \<open>Lines 421-511: the body of \<^verbatim>\<open>for round_idx in range(max_rounds)\<close>.\<close>

definition collect_round ::
  "'f pylib \<Rightarrow> (nat \<Rightarrow> int) \<Rightarrow> params \<Rightarrow> round_obs \<Rightarrow> 'f cstate \<Rightarrow> 'f cstate \<times> flow" where
  "collect_round L clock P r s =
    (if detect_captcha_or_block L (r_page r) then
       (case fst (handle_captcha_interactive L (headful P) (r_operator r)) of
          Inl e \<Rightarrow> (s, Raised e)
        | Inr action \<Rightarrow>
            if action = ''quit'' \<or> action = ''skip'' then (s, Return (total_written s))
            else extract_and_write L clock P r s)
     else extract_and_write L clock P r s)"

text \<open>
  The loop over \<^verbatim>\<open>range(max_rounds)\<close>: \<open>round_idx\<close> is the current index, the next argument
  counts the rounds left. After the loop, line 515 returns \<^verbatim>\<open>total_written\<close>.
\<close>

fun rounds ::
  "'f pylib \<Rightarrow> (nat \<Rightarrow> int) \<Rightarrow> params \<Rightarrow> (nat \<Rightarrow> round_obs) \<Rightarrow> nat \<Rightarrow> nat \<Rightarrow> 'f cstate
    \<Rightarrow> 'f cstate \<times> (exc + int)" where
  "rounds L clock P obs round_idx 0 s = (s, Inr (total_written s))"
| "rounds L clock P obs round_idx (Suc n) s =
    (case collect_round L clock P (obs round_idx) s of
       (s', NextRound) \<Rightarrow> rounds L clock P obs (Suc round_idx) n s'
     | (s', Break) \<Rightarrow> (s', Inr (total_written s'))
     | (s', Return v) \<Rightarrow> (s', Inr v)
     | (s', Raised e) \<Rightarrow> (s', Inl e))"

text \<open>
  \<^verbatim>\<open>stream_scroll_collect\<close> (lines 312-515): the file and the key set after the call, and the
  returned count or the exception that left the function.
\<close>

definition stream_scroll_collect ::
  "'f pylib \<Rightarrow> (nat \<Rightarrow> int) \<Rightarrow> params \<Rightarrow> (nat \<Rightarrow> round_obs) \<Rightarrow> 'f row list \<Rightarrow> string set
    \<Rightarrow> 'f row list \<times> string set \<times> (exc + int)" where
  "stream_scroll_collect L clock P obs file seen0 =
    (let (s, res) = rounds L clock P obs 0 (nat (max_rounds P))
                      \<lparr>max_pos_parsed = 0, no_progress = 0, total_written = 0,
                       out_f = file, seen_keys = seen0\<rparr>
     in (out_f s, seen_keys s, res))"

section \<open>The run over all sources\<close>

text \<open>
  \<^verbatim>\<open>load_seen_keys\<close> (lines 296-309). A line of the existing output file is given by what
  \<^verbatim>\<open>json.loads(line)\<close> and \<^verbatim>\<open>obj.get("review_key")\<close> make of it: an exception (swallowed by
  the \<^verbatim>\<open>except\<close>), no key or a false one, or a key. Only string keys are kept in the model:
  a key of another JSON type would be added to the Python set and never equal a digest.
\<close>

datatype old_line = Unreadable | NoKey | Key string

fun load_seen_keys :: "old_line list \<Rightarrow> string set" where
  "load_seen_keys [] = {}"
| "load_seen_keys (Key k # ls) = (if k \<noteq> [] then insert k (load_seen_keys ls) else load_seen_keys ls)"
| "load_seen_keys (_ # ls) = load_seen_keys ls"

text \<open>
  What \<^verbatim>\<open>main\<close> observes while it visits one address: whether the navigation with its wait
  and popup dismissal raises (lines 558-561), the page the detector reads, the operator's
  lines if it is blocked, the results of the two \<^verbatim>\<open>pick_first_existing\<close> calls, the result of
  \<^verbatim>\<open>extract_restaurant_name\<close>, whether \<^verbatim>\<open>wait_reviews_ready\<close> raises, the rounds of
  the collection loop, and whether the closing \<^verbatim>\<open>time.sleep\<close> is interrupted.
\<close>

record source_obs =
  s_url :: string
  s_goto :: "exc option"
  s_page :: page
  s_operator :: operator
  s_scroll_sel :: "string option"
  s_card_sel :: "string option"
  s_name :: "exc + string"
  s_ready :: "exc option"
  s_rounds :: "nat \<Rightarrow> round_obs"
  s_sleep :: "exc option"

text \<open>The command-line arguments that reach the model.\<close>

record args =
  arg_headful :: bool
  arg_max_scroll_rounds :: int
  arg_no_progress_limit :: int
  arg_max_reviews :: int

text \<open>The lines \<^verbatim>\<open>main\<close> prints about a source (debug output apart), with the source's index.\<close>

datatype report =
    QuitRequested
  | SkipCaptcha nat string
  | NotFound nat string
  | Written nat string int
  | TimedOut nat string
  | Interrupted
  | Failed nat string

text \<open>
  The state of a run: the rows appended to the output file, the shared key set, and what
  has been printed.
\<close>

record 'f run_state =
  sink :: "'f row list"
  seen :: "string set"
  printed :: "report list"

text \<open>How the body of the \<^verbatim>\<open>for\<close> loop over the addresses ends: \<^verbatim>\<open>continue\<close> or \<^verbatim>\<open>break\<close>.\<close>

datatype step = Proceed | Stop

text \<open>Python's \<^verbatim>\<open>not sel\<close> for a selector that is \<^verbatim>\<open>None\<close> or a string.\<close>

definition falsy :: "string option \<Rightarrow> bool" where
  "falsy sel = (case sel of None \<Rightarrow> True | Some v \<Rightarrow> v = [])"

text \<open>Lines 572-613: the visit of a source once the block check has let it pass.\<close>

definition scrape_source ::
  "'f pylib \<Rightarrow> (nat \<Rightarrow> int) \<Rightarrow> args \<Rightarrow> nat \<Rightarrow> source_obs \<Rightarrow> 'f run_state
    \<Rightarrow> 'f run_state \<times> (exc + step)" where
  "scrape_source L clock A idx src st =
    (if falsy (s_scroll_sel src) \<or> falsy (s_card_sel src)
     then (st\<lparr>printed := printed st @ [NotFound idx (s_url src)]\<rparr>, Inr Proceed)
     else
       let org = (case re_org_id L (s_url src) of Some g \<Rightarrow> g | None \<Rightarrow> ''unknown'') in
       case s_name src of
         Inl e \<Rightarrow> (st, Inl e)
       | Inr name \<Rightarrow>
           (case s_ready src of
              Some e \<Rightarrow> (st, Inl e)
            | None \<Rightarrow>
                (let (file, keys, res) =
                       stream_scroll_collect L clock
                         \<lparr>org_id = org, restaurant_name = name, source_url = s_url src,
                          max_rounds = arg_max_scroll_rounds A,
                          no_progress_limit = arg_no_progress_limit A,
                          max_reviews = arg_max_reviews A, headful = arg_headful A\<rparr>
                         (s_rounds src) (sink st) (seen st);
                     st1 = st\<lparr>sink := file, seen := keys\<rparr>
                 in case res of
                      Inl e \<Rightarrow> (st1, Inl e)
                    | Inr written \<Rightarrow>
                        (let st2 = st1\<lparr>printed := printed st1 @ [Written idx (s_url src) written]\<rparr>
                         in case s_sleep src of
                              Some e \<Rightarrow> (st2, Inl e)
                            | None \<Rightarrow> (st2, Inr Proceed)))))"

text \<open>Lines 558-613: the body of the \<^verbatim>\<open>try\<close>.\<close>

definition visit ::
  "'f pylib \<Rightarrow> (nat \<Rightarrow> int) \<Rightarrow> args \<Rightarrow> nat \<Rightarrow> source_obs \<Rightarrow> 'f run_state
    \<Rightarrow> 'f run_state \<times> (exc + step)" where
  "visit L clock A idx src st =
    (case s_goto src of
       Some e \<Rightarrow> (st, Inl e)
     | None \<Rightarrow>
         if detect_captcha_or_block L (s_page src) then
           (case fst (handle_captcha_interactive L (arg_headful A) (s_operator src)) of
              Inl e \<Rightarrow> (st, Inl e)
            | Inr action \<Rightarrow>
                if action = ''quit''
                then (st\<lparr>printed := printed st @ [QuitRequested]\<rparr>, Inr Stop)
                else if action = ''skip''
                then (st\<lparr>printed := printed st @ [SkipCaptcha idx (s_url src)]\<rparr>, Inr Proceed)
                else scrape_source L clock A idx src st)
         else scrape_source L clock A idx src st)"

text \<open>Lines 557-621: the \<^verbatim>\<open>try\<close> with its three handlers.\<close>

definition visit_guarded ::
  "'f pylib \<Rightarrow> (nat \<Rightarrow> int) \<Rightarrow> args \<Rightarrow> nat \<Rightarrow> source_obs \<Rightarrow> 'f run_state
    \<Rightarrow> 'f run_state \<times> step" where
  "visit_guarded L clock A idx src st =
    (case visit L clock A idx src st of
       (st', Inr c) \<Rightarrow> (st', c)
     | (st', Inl e) \<Rightarrow>
         if e = PwTimeoutError
         then (st'\<lparr>printed := printed st' @ [TimedOut idx (s_url src)]\<rparr>, Proceed)
         else if e = KeyboardInterrupt
         then (st'\<lparr>printed := printed st' @ [Interrupted]\<rparr>, Stop)
         else (st'\<lparr>printed := printed st' @ [Failed idx (s_url src)]\<rparr>, Proceed))"

text \<open>Line 556: \<^verbatim>\<open>for idx, url in enumerate(urls, start=1)\<close>.\<close>

fun main_loop ::
  "'f pylib \<Rightarrow> (nat \<Rightarrow> int) \<Rightarrow> args \<Rightarrow> nat \<Rightarrow> source_obs list \<Rightarrow> 'f run_state \<Rightarrow> 'f run_state" where
  "main_loop L clock A idx [] st = st"
| "main_loop L clock A idx (src # srcs) st =
    (case visit_guarded L clock A idx src st of
       (st', Stop) \<Rightarrow> st'
     | (st', Proceed) \<Rightarrow> main_loop L clock A (Suc idx) srcs st')"

text \<open>
  \<^verbatim>\<open>main\<close> (lines 534-629), from the lines of the existing output file and the sources that
  \<^verbatim>\<open>load_urls\<close> returned.
\<close>

definition main :: "'f pylib \<Rightarrow> (nat \<Rightarrow> int) \<Rightarrow> args \<Rightarrow> old_line list \<Rightarrow> source_obs list \<Rightarrow> 'f run_state" where
  "main L clock A old srcs =
    main_loop L clock A 1 srcs \<lparr>sink = [], seen = load_seen_keys old, printed = []\<rparr>"

section \<open>Vocabulary for the theorems\<close>

text \<open>
  Names for parts of the loop body of \<^verbatim>\<open>stream_scroll_collect\<close>: the key of an item (line 459),
  the row built for it (lines 463-478), and the state after lines 480-483 have written the
  row, counted it and added its key. \<open>write_items_step\<close> below shows that \<open>write_items\<close> is
  made of these parts.
\<close>

definition item_key :: "'f pylib \<Rightarrow> params \<Rightarrow> item \<Rightarrow> string" where
  "item_key L P it =
    review_key_of L (org_id P) (it_author_id it) (it_date_iso it) (it_rating_raw it)
      (str_strip L (it_text it))"

definition caption_parts :: "'f pylib \<Rightarrow> string \<Rightarrow> string \<times> string \<times> int option" where
  "caption_parts L c = (case parse_caption L c of Inr x \<Rightarrow> x | Inl e \<Rightarrow> ([], [], None))"

definition row_of :: "'f pylib \<Rightarrow> (nat \<Rightarrow> int) \<Rightarrow> params \<Rightarrow> 'f cstate \<Rightarrow> item \<Rightarrow> 'f row" where
  "row_of L clock P s it =
    \<lparr>row_review_key = item_key L P it, row_org_id = org_id P,
     row_restaurant_name = restaurant_name P, row_author_id = it_author_id it,
     row_author_caption = fst (caption_parts L (it_caption it)),
     row_author_badge = fst (snd (caption_parts L (it_caption it))),
     row_author_level = snd (snd (caption_parts L (it_caption it))),
     row_date_iso = it_date_iso it, row_date = date_ymd_of (it_date_iso it),
     row_rating_raw = it_rating_raw it, row_rating = to_float L (it_rating_raw it),
     row_text = str_strip L (it_text it), row_source_url = source_url P,
     row_scraped_at_unix = clock (length (out_f s))\<rparr>"

definition emit :: "'f pylib \<Rightarrow> (nat \<Rightarrow> int) \<Rightarrow> params \<Rightarrow> item \<Rightarrow> 'f cstate \<Rightarrow> 'f cstate" where
  "emit L clock P it s =
    s\<lparr>out_f := out_f s @ [row_of L clock P s it],
      total_written := total_written s + 1,
      seen_keys := insert (item_key L P it) (seen_keys s)\<rparr>"

text \<open>
  The exception, if any, that the loop body raises on an item in state \<open>s\<close>: none for an item
  without text; otherwise that of \<^verbatim>\<open>parse_caption\<close>, else that of \<^verbatim>\<open>sha1\<close>; and for an item
  with a new key that of the write.
\<close>

definition item_error :: "'f pylib \<Rightarrow> params \<Rightarrow> 'f cstate \<Rightarrow> item \<Rightarrow> exc option" where
  "item_error L P s it =
    (if str_strip L (it_text it) = [] then None
     else case parse_caption L (it_caption it) of
            Inl e \<Rightarrow> Some e
          | Inr x \<Rightarrow>
              if \<not> encodes L (key_text (org_id P) (it_author_id it) (it_date_iso it)
                                 (it_rating_raw it) (str_strip L (it_text it)))
              then Some UnicodeEncodeError
              else if item_key L P it \<in> seen_keys s then None
              else it_write it)"

text \<open>A row carries the key of its own five fields.\<close>

definition keyed :: "'f pylib \<Rightarrow> 'f row \<Rightarrow> bool" where
  "keyed L r =
    (row_review_key r =
      review_key_of L (row_org_id r) (row_author_id r) (row_date_iso r) (row_rating_raw r)
        (row_text r))"

text \<open>
  The file and the key set have changed from \<open>file\<close>, \<open>keys\<close> to \<open>file'\<close>, \<open>keys'\<close> by
  appending the rows \<open>new\<close>: their keys are pairwise different, none of them was in \<open>keys\<close>
  before, and all of them are in \<open>keys'\<close>.
\<close>

definition appended ::
  "'f pylib \<Rightarrow> 'f row list \<Rightarrow> string set \<Rightarrow> 'f row list \<Rightarrow> string set \<Rightarrow> 'f row list \<Rightarrow> bool" where
  "appended L file keys file' keys' new =
    (file' = file @ new \<and>
     keys' = keys \<union> set (map row_review_key new) \<and>
     distinct (map row_review_key new) \<and>
     set (map row_review_key new) \<inter> keys = {} \<and>
     list_all (keyed L) new)"

text \<open>The same for the state of the collection loop, with the count of rows written.\<close>

definition extends :: "'f pylib \<Rightarrow> 'f cstate \<Rightarrow> 'f cstate \<Rightarrow> bool" where
  "extends L s s' =
    (\<exists>new. appended L (out_f s) (seen_keys s) (out_f s') (seen_keys s') new \<and>
           total_written s' = total_written s + int (length new))"

text \<open>The same for the state of a run.\<close>

definition run_extends :: "'f pylib \<Rightarrow> 'f run_state \<Rightarrow> 'f run_state \<Rightarrow> bool" where
  "run_extends L st st' =
    (\<exists>new. appended L (sink st) (seen st) (sink st') (seen st') new)"

text \<open>A card whose position lies above the watermark \<open>w\<close>.\<close>

definition beyond :: "int \<Rightarrow> card \<Rightarrow> bool" where
  "beyond w c = (case c_pos c of None \<Rightarrow> False | Some pos \<Rightarrow> pos > w)"

text \<open>A round in which the flush of the output file does not raise.\<close>

definition flushes :: "round_obs \<Rightarrow> bool" where
  "flushes r = (r_flush r = None)"

text \<open>
  A card on which the loop body raises nothing: the level of its caption, if it has one, is
  accepted by \<^verbatim>\<open>int\<close>, the string of its key encodes, and the write of its row succeeds.
\<close>

definition card_quiet :: "'f pylib \<Rightarrow> params \<Rightarrow> card \<Rightarrow> bool" where
  "card_quiet L P c =
    ((case parse_caption L (c_caption c) of Inl e \<Rightarrow> False | Inr x \<Rightarrow> True) \<and>
     encodes L (key_text (org_id P) (c_author_id c) (c_date_iso c) (c_rating_raw c)
                  (str_strip L (c_text c))) \<and>
     c_write c = None)"

text \<open>The same for the item made of a card.\<close>

definition item_quiet :: "'f pylib \<Rightarrow> params \<Rightarrow> item \<Rightarrow> bool" where
  "item_quiet L P it =
    ((case parse_caption L (it_caption it) of Inl e \<Rightarrow> False | Inr x \<Rightarrow> True) \<and>
     encodes L (key_text (org_id P) (it_author_id it) (it_date_iso it) (it_rating_raw it)
                  (str_strip L (it_text it))) \<and>
     it_write it = None)"

text \<open>
  A round in which no call raises an exception that the loop leaves unhandled: the operator
  prompt (if the round is blocked), the evaluation (its timeout is handled), the processing
  of the visible cards, the flush and the scroll step.
\<close>

definition calm :: "'f pylib \<Rightarrow> params \<Rightarrow> round_obs \<Rightarrow> bool" where
  "calm L P r =
    (r_scroll r = None \<and> r_flush r = None \<and>
     (case r_eval r of Inl e \<Rightarrow> e = PwTimeoutError | Inr els \<Rightarrow> list_all (card_quiet L P) els) \<and>
     (if detect_captcha_or_block L (r_page r)
      then (case fst (handle_captcha_interactive L (headful P) (r_operator r)) of
              Inl e \<Rightarrow> False | Inr action \<Rightarrow> True)
      else True))"

section \<open>Concrete inputs\<close>

text \<open>
  A stand-in for the library, to run the model on concrete inputs: the digest and the string
  functions return their argument, every string encodes, \<^verbatim>\<open>float\<close> accepts the one string
  \<open>''5''\<close>, \<^verbatim>\<open>int\<close> accepts the one string \<open>''7''\<close> and rejects, as Python does, every string of
  more than 4300 characters, the caption pattern takes what follows \<open>''guide ''\<close> for the
  level, and the address pattern never matches.
\<close>

definition demo_lib :: "nat pylib" where
  "demo_lib =
    \<lparr>sha1_hex = (\<lambda>s. s), encodes = (\<lambda>s. True), str_lower = (\<lambda>s. s), str_strip = (\<lambda>s. s),
     float_of = (\<lambda>s. if s = ''5'' then Some 5 else None),
     int_of = (\<lambda>s. if 4300 < length s then None else if s = ''7'' then Some 7 else None),
     re_caption = (\<lambda>s. if take 6 s = ''guide '' then Some (''guide'', drop 6 s) else None),
     re_org_id = (\<lambda>s. None)\<rparr>"

definition demo_clock :: "nat \<Rightarrow> int" where
  "demo_clock k = 1700000000 + int k"

definition open_page :: page where
  "open_page = \<lparr>page_url = ''/org/a/1'', body_text = Some ''reviews''\<rparr>"

definition blocked_page :: page where
  "blocked_page = \<lparr>page_url = ''/showcaptcha'', body_text = None\<rparr>"

definition card_a :: card where
  "card_a = \<lparr>c_pos = Some 1, c_author_id = ''u1'', c_caption = ''pro'', c_rating_raw = ''5'',
             c_date_iso = ''2024-01-02T03:04'', c_text = ''good'', c_write = None\<rparr>"

definition card_b :: card where
  "card_b = \<lparr>c_pos = Some 2, c_author_id = ''u2'', c_caption = [], c_rating_raw = ''n/a'',
             c_date_iso = ''2024-02-03'', c_text = ''bad'', c_write = None\<rparr>"

definition seeing :: "card list \<Rightarrow> round_obs" where
  "seeing els = \<lparr>r_page = open_page, r_operator = [], r_eval = Inr els, r_flush = None, r_scroll = None\<rparr>"

definition demo_args :: args where
  "demo_args = \<lparr>arg_headful = False, arg_max_scroll_rounds = 3, arg_no_progress_limit = 2,
                arg_max_reviews = 0\<rparr>"

definition source_a :: source_obs where
  "source_a =
    \<lparr>s_url = ''/org/a/1'', s_goto = None, s_page = open_page, s_operator = [],
     s_scroll_sel = Some ''div.c'', s_card_sel = Some ''div.r'', s_name = Inr ''Cafe'',
     s_ready = None, s_rounds = (\<lambda>i. seeing [card_a, card_b]), s_sleep = None\<rparr>"

definition row_a :: "nat row" where
  "row_a =
    \<lparr>row_review_key = ''unknown|u1|2024-01-02T03:04|5|good'', row_org_id = ''unknown'',
     row_restaurant_name = ''Cafe'', row_author_id = ''u1'', row_author_caption = ''pro'',
     row_author_badge = [], row_author_level = None, row_date_iso = ''2024-01-02T03:04'',
     row_date = ''2024-01-02'', row_rating_raw = ''5'', row_rating = Some 5,
     row_text = ''good'', row_source_url = ''/org/a/1'', row_scraped_at_unix = 1700000000\<rparr>"

definition row_b :: "nat row" where
  "row_b =
    \<lparr>row_review_key = ''unknown|u2|2024-02-03|n/a|bad'', row_org_id = ''unknown'',
     row_restaurant_name = ''Cafe'', row_author_id = ''u2'', row_author_caption = [],
     row_author_badge = [], row_author_level = None, row_date_iso = ''2024-02-03'',
     row_date = ''2024-02-03'', row_rating_raw = ''n/a'', row_rating = None,
     row_text = ''bad'', row_source_url = ''/org/a/1'', row_scraped_at_unix = 1700000001\<rparr>"

text \<open>A page whose body cannot be read.\<close>

definition unreadable_page :: page where
  "unreadable_page = \<lparr>page_url = ''/org/a/1'', body_text = None\<rparr>"

definition demo_params :: params where
  "demo_params =
    \<lparr>org_id = ''unknown'', restaurant_name = ''Cafe'', source_url = ''/org/a/1'',
     max_rounds = 3, no_progress_limit = 2, max_reviews = 0, headful = False\<rparr>"

text \<open>The state of the loop after a round that has written \<open>row_a\<close> for the card at position 1.\<close>

definition after_card_a :: "nat cstate" where
  "after_card_a =
    \<lparr>max_pos_parsed = 1, no_progress = 0, total_written = 1, out_f = [row_a],
     seen_keys = {''unknown|u1|2024-01-02T03:04|5|good''}\<rparr>"

definition item_b :: item where
  "item_b = \<lparr>it_pos = 2, it_author_id = ''u2'', it_caption = [], it_rating_raw = ''n/a'',
             it_date_iso = ''2024-02-03'', it_text = ''bad'', it_write = None\<rparr>"

definition item_a :: item where
  "item_a = \<lparr>it_pos = 1, it_author_id = ''u1'', it_caption = ''pro'', it_rating_raw = ''5'',
             it_date_iso = ''2024-01-02T03:04'', it_text = ''good'', it_write = None\<rparr>"

text \<open>
  A caption whose level has 4301 digits, and an item that carries it: its text is not empty,
  its key is new to \<open>after_card_a\<close>, and its rating token does not parse.
\<close>

definition long_level_caption :: string where
  "long_level_caption = ''guide '' @ replicate 4301 (CHR ''9'')"

definition item_long_level :: item where
  "item_long_level = item_b\<lparr>it_caption := long_level_caption\<rparr>"

definition fresh_state :: "nat cstate" where
  "fresh_state =
    \<lparr>max_pos_parsed = 0, no_progress = 0, total_written = 0, out_f = [], seen_keys = {}\<rparr>"

definition capped_params :: params where
  "capped_params = demo_params\<lparr>max_reviews := 1\<rparr>"

text \<open>A round whose evaluation raises an error that is not the timeout.\<close>

definition failing_round :: round_obs where
  "failing_round =
    \<lparr>r_page = open_page, r_operator = [], r_eval = Inl OtherException,
     r_flush = None, r_scroll = None\<rparr>"

text \<open>The state of the loop after both cards were written and one round brought nothing new.\<close>

definition stalled_once :: "nat cstate" where
  "stalled_once =
    \<lparr>max_pos_parsed = 2, no_progress = 1, total_written = 2, out_f = [row_a, row_b],
     seen_keys = {''unknown|u2|2024-02-03|n/a|bad'', ''unknown|u1|2024-01-02T03:04|5|good''}\<rparr>"

text \<open>A round that shows both cards and in which the flush of the output file raises.\<close>

definition flush_fails :: round_obs where
  "flush_fails = (seeing [card_a, card_b])\<lparr>r_flush := Some OtherException\<rparr>"

text \<open>A round that starts on a blocked page.\<close>

definition blocked_round :: round_obs where
  "blocked_round =
    \<lparr>r_page = blocked_page, r_operator = [], r_eval = Inr [card_a, card_b],
     r_flush = None, r_scroll = None\<rparr>"

text \<open>A source whose first round shows one card and whose later rounds are blocked.\<close>

definition source_blocked_later :: source_obs where
  "source_blocked_later =
    source_a\<lparr>s_rounds := (\<lambda>i. if i = 0 then seeing [card_a] else blocked_round)\<rparr>"

text \<open>A source that is blocked when the address has been loaded.\<close>

definition source_blocked :: source_obs where
  "source_blocked = source_a\<lparr>s_url := ''/org/b/2'', s_page := blocked_page\<rparr>"

text \<open>A run with an operator at the terminal.\<close>

definition operator_args :: args where
  "operator_args = demo_args\<lparr>arg_headful := True\<rparr>"

text \<open>The operator types \<open>q\<close> at the prompt.\<close>

definition types_q :: operator where
  "types_q = [(''q'', blocked_page)]"

text \<open>A source that loads unblocked and is blocked in every round of the collection loop.\<close>

definition source_quit_in_round :: source_obs where
  "source_quit_in_round =
    source_a\<lparr>s_url := ''/org/b/2'', s_rounds := (\<lambda>i. blocked_round\<lparr>r_operator := types_q\<rparr>)\<rparr>"

text \<open>A source that is blocked when the address has been loaded.\<close>

definition source_quit_at_navigation :: source_obs where
  "source_quit_at_navigation =
    source_a\<lparr>s_url := ''/org/b/2'', s_page := blocked_page, s_operator := types_q\<rparr>"

section \<open>The item loop\<close>

lemma write_items_step:
  "write_items L clock P (it # its) s =
    (case item_error L P s it of
       Some e \<Rightarrow> (s, Inl e)
     | None \<Rightarrow>
         if str_strip L (it_text it) = [] \<or> item_key L P it \<in> seen_keys s
         then write_items L clock P its s
         else if max_reviews P > 0 \<and> total_written s + 1 \<ge> max_reviews P
              then (emit L clock P it s, Inr True)
              else write_items L clock P its (emit L clock P it s))"
proof (cases "str_strip L (it_text it) = []")
  case True
  then show ?thesis by (simp add: item_error_def)
next
  case False
  show ?thesis
  proof (cases "parse_caption L (it_caption it)")
    case (Inl e)
    with False show ?thesis by (simp add: item_error_def)
  next
    case (Inr x)
    obtain cap badge lvl where x: "x = (cap, badge, lvl)" by (cases x) auto
    show ?thesis
    proof (cases "encodes L (key_text (org_id P) (it_author_id it) (it_date_iso it)
                                (it_rating_raw it) (str_strip L (it_text it)))")
      case no: False
      with False Inr x show ?thesis by (simp add: item_error_def sha1_def Let_def)
    next
      case True
      show ?thesis
      proof (cases "item_key L P it \<in> seen_keys s")
        case seen: True
        with False Inr x \<open>encodes L _\<close> show ?thesis
          by (simp add: item_error_def sha1_def Let_def item_key_def review_key_of_def)
      next
        case fresh: False
        show ?thesis
        proof (cases "it_write it")
          case (Some e)
          with False Inr x \<open>encodes L _\<close> fresh show ?thesis
            by (simp add: item_error_def sha1_def Let_def item_key_def review_key_of_def)
        next
          case None
          with False Inr x \<open>encodes L _\<close> fresh show ?thesis
            by (simp add: item_error_def sha1_def Let_def item_key_def review_key_of_def
                  row_of_def emit_def caption_parts_def)
        qed
      qed
    qed
  qed
qed

lemma appended_refl: "appended L file keys file keys []"
  by (simp add: appended_def)

lemma appended_trans:
  assumes "appended L f0 k0 f1 k1 m1" and "appended L f1 k1 f2 k2 m2"
  shows "appended L f0 k0 f2 k2 (m1 @ m2)"
  using assms unfolding appended_def by auto

lemma emit_appended:
  assumes "item_key L P it \<notin> seen_keys s"
  shows "appended L (out_f s) (seen_keys s) (out_f (emit L clock P it s))
           (seen_keys (emit L clock P it s)) [row_of L clock P s it]"
  using assms by (simp add: appended_def emit_def row_of_def keyed_def item_key_def)

lemma emit_frame:
  "max_pos_parsed (emit L clock P it s) = max_pos_parsed s"
  "no_progress (emit L clock P it s) = no_progress s"
  "total_written (emit L clock P it s) = total_written s + 1"
  by (simp_all add: emit_def)

lemma write_items_appended:
  "\<exists>new. appended L (out_f s) (seen_keys s)
           (out_f (fst (write_items L clock P its s)))
           (seen_keys (fst (write_items L clock P its s))) new \<and>
         total_written (fst (write_items L clock P its s)) = total_written s + int (length new)"
proof (induction its arbitrary: s)
  case Nil
  show ?case using appended_refl[of L "out_f s" "seen_keys s"] by auto
next
  case (Cons it its)
  show ?case
  proof (cases "item_error L P s it")
    case (Some e)
    then show ?thesis
      using appended_refl[of L "out_f s" "seen_keys s"]
      by (auto simp add: write_items_step simp del: write_items.simps)
  next
    case None
    show ?thesis
    proof (cases "str_strip L (it_text it) = [] \<or> item_key L P it \<in> seen_keys s")
      case True
      then show ?thesis
        using None Cons[of s] by (simp add: write_items_step del: write_items.simps)
    next
      case False
      then have fresh: "item_key L P it \<notin> seen_keys s" by simp
      let ?s1 = "emit L clock P it s"
      note a1 = emit_appended[OF fresh, of clock]
      show ?thesis
      proof (cases "max_reviews P > 0 \<and> total_written s + 1 \<ge> max_reviews P")
        case True
        with False None have "write_items L clock P (it # its) s = (?s1, Inr True)"
          by (simp add: write_items_step del: write_items.simps)
        then show ?thesis
          using a1 by (auto simp: emit_frame intro!: exI[of _ "[row_of L clock P s it]"])
      next
        case nocap: False
        with False None
        have eq: "write_items L clock P (it # its) s = write_items L clock P its ?s1"
          by (auto simp add: write_items_step simp del: write_items.simps)
        from Cons[of ?s1] obtain new where
          n: "appended L (out_f ?s1) (seen_keys ?s1) (out_f (fst (write_items L clock P its ?s1)))
                (seen_keys (fst (write_items L clock P its ?s1))) new"
          and t: "total_written (fst (write_items L clock P its ?s1)) =
                    total_written ?s1 + int (length new)"
          by blast
        from appended_trans[OF a1 n] t show ?thesis
          unfolding eq by (auto simp: emit_frame intro!: exI[of _ "row_of L clock P s it # new"])
      qed
    qed
  qed
qed

lemma write_items_frame:
  "max_pos_parsed (fst (write_items L clock P its s)) = max_pos_parsed s \<and>
   no_progress (fst (write_items L clock P its s)) = no_progress s"
  by (induction its arbitrary: s)
     (simp_all add: write_items_step emit_frame del: write_items.simps(2) split: option.splits)

section \<open>Rounds and runs only append\<close>

lemma extends_refl: "extends L s s"
  unfolding extends_def using appended_refl[of L "out_f s" "seen_keys s"] by auto

lemma extends_trans: "extends L s s1 \<Longrightarrow> extends L s1 s2 \<Longrightarrow> extends L s s2"
  unfolding extends_def
  apply clarify
  subgoal for m1 m2
    using appended_trans[of L "out_f s" "seen_keys s" "out_f s1" "seen_keys s1" m1 "out_f s2" "seen_keys s2" m2]
    by (auto intro!: exI[of _ "m1 @ m2"])
  done

lemma extends_same:
  "out_f s' = out_f s \<Longrightarrow> seen_keys s' = seen_keys s \<Longrightarrow> total_written s' = total_written s
    \<Longrightarrow> extends L s s'"
  unfolding extends_def using appended_refl[of L "out_f s" "seen_keys s"] by auto

lemma write_items_extends: "extends L s (fst (write_items L clock P its s))"
  unfolding extends_def by (rule write_items_appended)

lemma stall_fst: "fst (stall_check_and_scroll P r s) = s"
  by (simp add: stall_check_and_scroll_def split: option.splits)

lemma advance_watermark_frame:
  "out_f (advance_watermark m s) = out_f s"
  "seen_keys (advance_watermark m s) = seen_keys s"
  "total_written (advance_watermark m s) = total_written s"
  by (simp_all add: advance_watermark_def Let_def)

lemma extract_and_write_fst:
  assumes "r_eval r = Inr els"
  shows "fst (extract_and_write L clock P r s) =
           fst (write_items L clock P (fst (js_extract_new els (max_pos_parsed s))) s) \<or>
         fst (extract_and_write L clock P r s) =
           advance_watermark (snd (js_extract_new els (max_pos_parsed s)))
             (fst (write_items L clock P (fst (js_extract_new els (max_pos_parsed s))) s))"
  using assms
  by (auto simp: extract_and_write_def stall_fst split: prod.splits sum.splits option.splits)

lemma extract_and_write_extends: "extends L s (fst (extract_and_write L clock P r s))"
proof (cases "r_eval r")
  case (Inl e)
  then show ?thesis
    by (auto simp: extract_and_write_def stall_fst extends_refl intro: extends_same)
next
  case (Inr els)
  let ?items = "fst (js_extract_new els (max_pos_parsed s))"
  let ?s2 = "fst (write_items L clock P ?items s)"
  have e2: "extends L s ?s2" by (rule write_items_extends)
  have "extends L ?s2 (advance_watermark (snd (js_extract_new els (max_pos_parsed s))) ?s2)"
    by (rule extends_same) (simp_all add: advance_watermark_frame)
  with e2 have "extends L s (advance_watermark (snd (js_extract_new els (max_pos_parsed s))) ?s2)"
    by (rule extends_trans)
  with e2 show ?thesis
    using extract_and_write_fst[OF Inr, of L clock P s] by auto
qed

lemma collect_round_extends: "extends L s (fst (collect_round L clock P r s))"
  by (auto simp: collect_round_def extract_and_write_extends extends_refl split: sum.splits)

lemma extract_and_write_return:
  "extract_and_write L clock P r s = (s', Return v) \<Longrightarrow> v = total_written s'"
  by (auto simp: extract_and_write_def stall_check_and_scroll_def
           split: sum.splits prod.splits if_splits option.splits)

lemma collect_round_return:
  "collect_round L clock P r s = (s', Return v) \<Longrightarrow> v = total_written s'"
  by (auto simp: collect_round_def dest: extract_and_write_return split: sum.splits if_splits)

lemma rounds_extends: "extends L s (fst (rounds L clock P obs i n s))"
proof (induction n arbitrary: i s)
  case 0
  show ?case by (simp add: extends_refl)
next
  case (Suc n)
  obtain s1 f where c: "collect_round L clock P (obs i) s = (s1, f)"
    by (cases "collect_round L clock P (obs i) s") auto
  have e1: "extends L s s1" using collect_round_extends[of L s clock P "obs i"] c by simp
  show ?case
  proof (cases f)
    case NextRound
    with c e1 Suc[of s1 "Suc i"] show ?thesis by (auto intro: extends_trans)
  qed (use c e1 in auto)
qed

lemma rounds_returns_count:
  "snd (rounds L clock P obs i n s) = Inr v \<Longrightarrow> v = total_written (fst (rounds L clock P obs i n s))"
proof (induction n arbitrary: i s)
  case 0
  then show ?case by simp
next
  case (Suc n)
  obtain s1 f where c: "collect_round L clock P (obs i) s = (s1, f)"
    by (cases "collect_round L clock P (obs i) s") auto
  show ?case
  proof (cases f)
    case NextRound
    with c Suc show ?thesis by simp
  next
    case (Return x)
    with c Suc.prems collect_round_return[of L clock P "obs i" s s1 x] show ?thesis by simp
  qed (use c Suc.prems in auto)
qed

lemma stream_scroll_collect_appended:
  assumes "stream_scroll_collect L clock P obs file seen0 = (file', keys', res)"
  shows "\<exists>new. appended L file seen0 file' keys' new \<and> (\<forall>v. res = Inr v \<longrightarrow> v = int (length new))"
proof -
  let ?s0 = "\<lparr>max_pos_parsed = 0, no_progress = 0, total_written = 0, out_f = file, seen_keys = seen0\<rparr>"
  let ?r = "rounds L clock P obs 0 (nat (max_rounds P)) ?s0"
  from assms have f: "file' = out_f (fst ?r)" "keys' = seen_keys (fst ?r)" "res = snd ?r"
    by (auto simp: stream_scroll_collect_def split: prod.splits)
  from rounds_extends[of L ?s0 clock P obs 0 "nat (max_rounds P)"]
  obtain new where n: "appended L file seen0 file' keys' new"
    and t: "total_written (fst ?r) = int (length new)"
    unfolding extends_def f by auto
  from rounds_returns_count[of L clock P obs 0 "nat (max_rounds P)" ?s0] t f
  have "\<forall>v. res = Inr v \<longrightarrow> v = int (length new)" by auto
  with n show ?thesis by blast
qed

lemma run_extends_refl: "run_extends L st st"
  unfolding run_extends_def using appended_refl[of L "sink st" "seen st"] by auto

lemma run_extends_trans: "run_extends L s s1 \<Longrightarrow> run_extends L s1 s2 \<Longrightarrow> run_extends L s s2"
  unfolding run_extends_def
  apply clarify
  subgoal for m1 m2
    using appended_trans[of L "sink s" "seen s" "sink s1" "seen s1" m1 "sink s2" "seen s2" m2]
    by (auto intro!: exI[of _ "m1 @ m2"])
  done

lemma run_extends_print: "run_extends L st st' \<Longrightarrow> run_extends L st (st'\<lparr>printed := p\<rparr>)"
  by (simp add: run_extends_def)

lemma scrape_source_extends: "run_extends L st (fst (scrape_source L clock A idx src st))"
proof -
  let ?P = "\<lparr>org_id = (case re_org_id L (s_url src) of Some g \<Rightarrow> g | None \<Rightarrow> ''unknown''),
             restaurant_name = (case s_name src of Inr n \<Rightarrow> n | Inl e \<Rightarrow> []), source_url = s_url src,
             max_rounds = arg_max_scroll_rounds A,
             no_progress_limit = arg_no_progress_limit A,
             max_reviews = arg_max_reviews A, headful = arg_headful A\<rparr>"
  obtain fl ks res where
    c: "stream_scroll_collect L clock ?P (s_rounds src) (sink st) (seen st) = (fl, ks, res)"
    by (cases "stream_scroll_collect L clock ?P (s_rounds src) (sink st) (seen st)") auto
  from stream_scroll_collect_appended[OF c]
  have e: "run_extends L st (st\<lparr>sink := fl, seen := ks\<rparr>)"
    by (auto simp: run_extends_def)
  show ?thesis
    using c e run_extends_refl[of L st]
    by (auto simp: scrape_source_def Let_def run_extends_print
             split: sum.splits option.splits)
qed

lemma visit_extends: "run_extends L st (fst (visit L clock A idx src st))"
  by (auto simp: visit_def scrape_source_extends run_extends_refl run_extends_print
           split: option.splits sum.splits)

lemma visit_guarded_extends: "run_extends L st (fst (visit_guarded L clock A idx src st))"
  using visit_extends[of L st clock A idx src]
  by (auto simp: visit_guarded_def run_extends_print split: prod.splits sum.splits)

lemma main_loop_extends: "run_extends L st (main_loop L clock A idx srcs st)"
proof (induction srcs arbitrary: idx st)
  case Nil
  show ?case by (simp add: run_extends_refl)
next
  case (Cons src srcs)
  obtain st1 c where v: "visit_guarded L clock A idx src st = (st1, c)"
    by (cases "visit_guarded L clock A idx src st") auto
  have e1: "run_extends L st st1" using visit_guarded_extends[of L st clock A idx src] v by simp
  show ?case
    using v e1 Cons[of st1 "Suc idx"] by (cases c) (auto intro: run_extends_trans)
qed

section \<open>Running the model on the concrete inputs\<close>

lemmas demo_simps =
  demo_lib_def demo_clock_def open_page_def blocked_page_def card_a_def card_b_def seeing_def
  demo_args_def source_a_def row_a_def row_b_def
  main_def visit_guarded_def visit_def scrape_source_def falsy_def
  stream_scroll_collect_def collect_round_def extract_and_write_def js_extract_new_def
  stall_check_and_scroll_def advance_watermark_def detect_captcha_or_block_def markers_def
  handle_captcha_interactive_def parse_caption_def to_float_def replace_comma_def
  date_ymd_of_def review_key_of_def key_text_def sha1_def Let_def eval_nat_numeral

lemma demo_open: "\<not> detect_captcha_or_block demo_lib open_page"
  by (simp add: demo_simps)

lemma demo_blocked: "detect_captcha_or_block demo_lib blocked_page"
  by (simp add: demo_simps)

lemma demo_run:
  "main demo_lib demo_clock demo_args [] [source_a] =
    \<lparr>sink = [row_a, row_b],
     seen = {''unknown|u2|2024-02-03|n/a|bad'', ''unknown|u1|2024-01-02T03:04|5|good''},
     printed = [Written 1 ''/org/a/1'' 2]\<rparr>"
  by (simp add: demo_simps)

section \<open>The key of a record\<close>

lemma main_appended:
  "\<exists>new. appended L [] (load_seen_keys old) (sink (main L clock A old srcs))
           (seen (main L clock A old srcs)) new"
  using main_loop_extends[of L "\<lparr>sink = [], seen = load_seen_keys old, printed = []\<rparr>" clock A 1 srcs]
  by (simp add: main_def run_extends_def)

lemma main_rows_keyed: "r \<in> set (sink (main L clock A old srcs)) \<Longrightarrow> keyed L r"
  using main_appended[of L old clock A srcs]
  by (auto simp: appended_def list_all_iff)

text \<open>
  Claim C1. The key of a record is a function of the five inputs organisation id, author id,
  raw timestamp, raw rating token and final text: every row that any run writes carries the
  digest of these five fields joined by \<open>|\<close>, so two rows that agree on the five fields carry
  the same key, whatever run, source, round, position, caption or clock they come from.
\<close>

theorem review_key_deterministic:
  assumes "r1 \<in> set (sink (main L clock1 A1 old1 srcs1))"
    and "r2 \<in> set (sink (main L clock2 A2 old2 srcs2))"
    and "row_org_id r1 = row_org_id r2"
    and "row_author_id r1 = row_author_id r2"
    and "row_date_iso r1 = row_date_iso r2"
    and "row_rating_raw r1 = row_rating_raw r2"
    and "row_text r1 = row_text r2"
  shows "row_review_key r1 = row_review_key r2 \<and>
         row_review_key r1 =
           sha1_hex L (row_org_id r1 @ ''|'' @ row_author_id r1 @ ''|'' @ row_date_iso r1 @ ''|'' @
                       row_rating_raw r1 @ ''|'' @ row_text r1)"
proof -
  have "keyed L r1" using assms(1) by (rule main_rows_keyed)
  moreover have "keyed L r2" using assms(2) by (rule main_rows_keyed)
  ultimately show ?thesis
    using assms(3-7) by (simp add: keyed_def review_key_of_def key_text_def)
qed

lemma demo_run_elsewhere:
  "main demo_lib (\<lambda>k. 5) operator_args [] [source_a\<lparr>s_name := Inr ''Bistro''\<rparr>] =
    \<lparr>sink = [row_a\<lparr>row_restaurant_name := ''Bistro'', row_scraped_at_unix := 5\<rparr>,
             row_b\<lparr>row_restaurant_name := ''Bistro'', row_scraped_at_unix := 5\<rparr>],
     seen = {''unknown|u2|2024-02-03|n/a|bad'', ''unknown|u1|2024-01-02T03:04|5|good''},
     printed = [Written 1 ''/org/a/1'' 2]\<rparr>"
  by (simp add: demo_simps operator_args_def)

theorem review_key_deterministic_witness:
  "row_a \<in> set (sink (main demo_lib demo_clock demo_args [] [source_a])) \<and>
   row_a\<lparr>row_restaurant_name := ''Bistro'', row_scraped_at_unix := 5\<rparr> \<in>
     set (sink (main demo_lib (\<lambda>k. 5) operator_args [] [source_a\<lparr>s_name := Inr ''Bistro''\<rparr>])) \<and>
   row_review_key row_a =
     row_review_key (row_a\<lparr>row_restaurant_name := ''Bistro'', row_scraped_at_unix := 5\<rparr>) \<and>
   row_review_key row_a = sha1_hex demo_lib ''unknown|u1|2024-01-02T03:04|5|good''"
proof -
  have m1: "row_a \<in> set (sink (main demo_lib demo_clock demo_args [] [source_a]))"
    by (simp add: demo_run)
  have m2: "row_a\<lparr>row_restaurant_name := ''Bistro'', row_scraped_at_unix := 5\<rparr> \<in>
     set (sink (main demo_lib (\<lambda>k. 5) operator_args [] [source_a\<lparr>s_name := Inr ''Bistro''\<rparr>]))"
    by (simp add: demo_run_elsewhere)
  from review_key_deterministic[OF m1 m2] have
    "row_review_key row_a =
       row_review_key (row_a\<lparr>row_restaurant_name := ''Bistro'', row_scraped_at_unix := 5\<rparr>) \<and>
     row_review_key row_a = sha1_hex demo_lib ''unknown|u1|2024-01-02T03:04|5|good''"
    by (simp add: row_a_def)
  with m1 m2 show ?thesis by blast
qed

section \<open>Each key is written at most once\<close>

text \<open>
  Claim C2. Within one run every key is written at most once: the keys of the rows that a
  run appends to the output file are pairwise different, none of them was among the keys
  loaded from the existing file, and the key set at the end holds the loaded keys and the
  keys of the rows written. The step behind it: the loop body leaves file and key set as
  they are for an item without text, for an item whose key is in the set, and when it
  raises; for any other item it appends the row with the item's key and has the key in the
  set afterwards. The rounds and sources are arbitrary, so the same review may be visible in
  several of them.
\<close>

theorem run_writes_each_key_once:
  "distinct (map row_review_key (sink (main L clock A old srcs))) \<and>
   set (map row_review_key (sink (main L clock A old srcs))) \<inter> load_seen_keys old = {} \<and>
   seen (main L clock A old srcs) =
     load_seen_keys old \<union> set (map row_review_key (sink (main L clock A old srcs))) \<and>
   (if str_strip L (it_text it) = [] \<or> item_key L P it \<in> seen_keys s
    then write_items L clock P [it] s = (s, case item_error L P s it of None \<Rightarrow> Inr False | Some e \<Rightarrow> Inl e)
    else if item_error L P s it = None
    then out_f (fst (write_items L clock P [it] s)) = out_f s @ [row_of L clock P s it] \<and>
         row_review_key (row_of L clock P s it) = item_key L P it \<and>
         seen_keys (fst (write_items L clock P [it] s)) = insert (item_key L P it) (seen_keys s)
    else fst (write_items L clock P [it] s) = s)"
proof -
  from main_appended[of L old clock A srcs]
  have "distinct (map row_review_key (sink (main L clock A old srcs)))"
    and "set (map row_review_key (sink (main L clock A old srcs))) \<inter> load_seen_keys old = {}"
    and "seen (main L clock A old srcs) =
          load_seen_keys old \<union> set (map row_review_key (sink (main L clock A old srcs)))"
    by (auto simp: appended_def)
  moreover have "if str_strip L (it_text it) = [] \<or> item_key L P it \<in> seen_keys s
    then write_items L clock P [it] s = (s, case item_error L P s it of None \<Rightarrow> Inr False | Some e \<Rightarrow> Inl e)
    else if item_error L P s it = None
    then out_f (fst (write_items L clock P [it] s)) = out_f s @ [row_of L clock P s it] \<and>
         row_review_key (row_of L clock P s it) = item_key L P it \<and>
         seen_keys (fst (write_items L clock P [it] s)) = insert (item_key L P it) (seen_keys s)
    else fst (write_items L clock P [it] s) = s"
    by (auto simp add: write_items_step emit_def row_of_def simp del: write_items.simps(2)
             split: option.splits)
  ultimately show ?thesis by blast
qed

lemma demo_run_twice:
  "main demo_lib demo_clock demo_args [] [source_a, source_a] =
    \<lparr>sink = [row_a, row_b],
     seen = {''unknown|u2|2024-02-03|n/a|bad'', ''unknown|u1|2024-01-02T03:04|5|good''},
     printed = [Written 1 ''/org/a/1'' 2, Written 2 ''/org/a/1'' 0]\<rparr>"
  by (simp add: demo_simps)

theorem run_writes_each_key_once_witness:
  "distinct (map row_review_key [row_a, row_b]) \<and>
   sink (main demo_lib demo_clock demo_args [] [source_a, source_a]) = [row_a, row_b]"
  using run_writes_each_key_once[of demo_lib demo_clock demo_args "[]" "[source_a, source_a]"]
  by (simp add: demo_run_twice)

section \<open>The detector fails open\<close>

text \<open>
  Claim C7. The block detector fails open: when reading the visible text raises (an error
  or the timeout) and the address, in lower case, contains neither \<open>showcaptcha\<close> nor
  \<open>captcha\<close>, the detector answers "not blocked"; it returns a truth value and lets no
  error through.
\<close>

theorem detector_fails_open:
  assumes "body_text p = None"
    and "\<not> (contains ''showcaptcha'' (str_lower L (page_url p)) \<or>
             contains ''captcha'' (str_lower L (page_url p)))"
  shows "detect_captcha_or_block L p = False"
  using assms by (simp add: detect_captcha_or_block_def)

theorem detector_fails_open_witness:
  "body_text unreadable_page = None \<and>
   \<not> (contains ''showcaptcha'' (str_lower demo_lib (page_url unreadable_page)) \<or>
      contains ''captcha'' (str_lower demo_lib (page_url unreadable_page))) \<and>
   detect_captcha_or_block demo_lib unreadable_page = False"
proof -
  have b: "body_text unreadable_page = None"
    by (simp add: unreadable_page_def)
  have u: "\<not> (contains ''showcaptcha'' (str_lower demo_lib (page_url unreadable_page)) \<or>
             contains ''captcha'' (str_lower demo_lib (page_url unreadable_page)))"
    by (simp add: unreadable_page_def demo_lib_def)
  from detector_fails_open[OF b u] b u show ?thesis by blast
qed

section \<open>The watermark\<close>

lemma js_loop_filter: "js_loop (filter (beyond w) els) w m acc = js_loop els w m acc"
  by (induction els arbitrary: m acc) (auto simp: beyond_def split: option.splits)

lemma js_loop_items:
  "list_all (\<lambda>it. w < it_pos it) acc \<Longrightarrow> list_all (\<lambda>it. w < it_pos it) (fst (js_loop els w m acc))"
  by (induction els arbitrary: m acc) (auto split: option.splits)

lemma js_loop_max: "m \<le> snd (js_loop els w m acc)"
proof (induction els arbitrary: m acc)
  case Nil
  show ?case by simp
next
  case (Cons c els)
  show ?case
  proof (cases "c_pos c")
    case None
    then show ?thesis using Cons[of m acc] by simp
  next
    case (Some pos)
    let ?item = "\<lparr>it_pos = pos, it_author_id = c_author_id c, it_caption = c_caption c,
                  it_rating_raw = c_rating_raw c, it_date_iso = c_date_iso c, it_text = c_text c,
                  it_write = c_write c\<rparr>"
    show ?thesis
    proof (cases "pos = 0 \<or> pos \<le> w")
      case True
      with Some show ?thesis using Cons[of m acc] by simp
    next
      case False
      have "m \<le> (if pos > m then pos else m)" by simp
      also have "\<dots> \<le> snd (js_loop els w (if pos > m then pos else m) (acc @ [?item]))"
        by (rule Cons)
      finally show ?thesis using Some False by simp
    qed
  qed
qed

lemma advance_watermark_mono: "max_pos_parsed s \<le> max_pos_parsed (advance_watermark m s)"
  by (simp add: advance_watermark_def Let_def)

lemma extract_and_write_mono:
  "max_pos_parsed s \<le> max_pos_parsed (fst (extract_and_write L clock P r s))"
proof (cases "r_eval r")
  case (Inl e)
  then show ?thesis by (simp add: extract_and_write_def stall_fst)
next
  case (Inr els)
  let ?s2 = "fst (write_items L clock P (fst (js_extract_new els (max_pos_parsed s))) s)"
  have m2: "max_pos_parsed ?s2 = max_pos_parsed s"
    using write_items_frame by blast
  show ?thesis
    using extract_and_write_fst[OF Inr, of L clock P s] m2
      advance_watermark_mono[of ?s2 "snd (js_extract_new els (max_pos_parsed s))"]
    by auto
qed

lemma collect_round_mono:
  "max_pos_parsed s \<le> max_pos_parsed (fst (collect_round L clock P r s))"
  by (auto simp: collect_round_def extract_and_write_mono split: sum.splits)

lemma rounds_mono: "max_pos_parsed s \<le> max_pos_parsed (fst (rounds L clock P obs i n s))"
proof (induction n arbitrary: i s)
  case 0
  show ?case by simp
next
  case (Suc n)
  obtain s1 f where c: "collect_round L clock P (obs i) s = (s1, f)"
    by (cases "collect_round L clock P (obs i) s") auto
  have m1: "max_pos_parsed s \<le> max_pos_parsed s1"
    using collect_round_mono[of s L clock P "obs i"] c by simp
  show ?case
  proof (cases f)
    case NextRound
    with c m1 Suc[of s1 "Suc i"] show ?thesis by simp
  qed (use c m1 in auto)
qed

lemma stall_check_eval: "stall_check_and_scroll P (r\<lparr>r_eval := x\<rparr>) s = stall_check_and_scroll P r s"
  by (simp add: stall_check_and_scroll_def)

lemma extract_and_write_filter:
  "extract_and_write L clock P (r\<lparr>r_eval := Inr (filter (beyond (max_pos_parsed s)) els)\<rparr>) s =
   extract_and_write L clock P (r\<lparr>r_eval := Inr els\<rparr>) s"
  by (simp add: extract_and_write_def js_extract_new_def js_loop_filter stall_check_eval
        split: prod.splits sum.splits option.splits)

lemma collect_round_filter:
  "collect_round L clock P (r\<lparr>r_eval := Inr (filter (beyond (max_pos_parsed s)) els)\<rparr>) s =
   collect_round L clock P (r\<lparr>r_eval := Inr els\<rparr>) s"
  by (simp add: collect_round_def extract_and_write_filter split: sum.splits)

text \<open>
  Claim C3. Within the collection of a source the watermark \<open>max_pos_parsed\<close> never
  decreases: it is at least as large after a round as before it, and so after any number of
  rounds from any state of the loop. In every round the cards whose position is at or below
  the watermark are skipped before anything is done with them: the extraction returns only
  items above the watermark, it returns the same as on the cards above the watermark alone,
  and the whole round, rows and keys included, runs as if those cards were not visible.
\<close>

theorem watermark_monotone_and_skips:
  "max_pos_parsed s \<le> max_pos_parsed (fst (collect_round L clock P r s)) \<and>
   max_pos_parsed s \<le> max_pos_parsed (fst (rounds L clock P obs i n s)) \<and>
   list_all (\<lambda>it. max_pos_parsed s < it_pos it) (fst (js_extract_new els (max_pos_parsed s))) \<and>
   js_extract_new (filter (beyond (max_pos_parsed s)) els) (max_pos_parsed s) =
     js_extract_new els (max_pos_parsed s) \<and>
   collect_round L clock P (r\<lparr>r_eval := Inr (filter (beyond (max_pos_parsed s)) els)\<rparr>) s =
     collect_round L clock P (r\<lparr>r_eval := Inr els\<rparr>) s"
proof -
  have "list_all (\<lambda>it. max_pos_parsed s < it_pos it) (fst (js_extract_new els (max_pos_parsed s)))"
    unfolding js_extract_new_def by (rule js_loop_items) simp
  moreover have "js_extract_new (filter (beyond (max_pos_parsed s)) els) (max_pos_parsed s) =
     js_extract_new els (max_pos_parsed s)"
    by (simp add: js_extract_new_def js_loop_filter)
  ultimately show ?thesis
    using collect_round_mono[of s L clock P r] rounds_mono[of s L clock P obs i n]
      collect_round_filter[of L clock P s els r]
    by blast
qed

theorem watermark_monotone_and_skips_witness:
  "map it_pos (fst (js_extract_new [card_a, card_b] (max_pos_parsed after_card_a))) = [2] \<and>
   max_pos_parsed (fst (collect_round demo_lib demo_clock demo_params (seeing [card_a, card_b])
                          after_card_a)) = 2 \<and>
   filter (beyond (max_pos_parsed after_card_a)) [card_a, card_b] = [card_b]"
  using watermark_monotone_and_skips[of after_card_a demo_lib demo_clock demo_params
          "seeing [card_a, card_b]" "\<lambda>i. seeing [card_a, card_b]" 0 0 "[card_a, card_b]"]
  by (simp add: demo_simps after_card_a_def demo_params_def beyond_def)

section \<open>A rating that does not parse\<close>

lemma write_items_prefix:
  "\<exists>new. out_f (fst (write_items L clock P its s)) = out_f s @ new"
  using write_items_appended[of L s clock P its] by (auto simp: appended_def)

lemma demo_long_level: "parse_caption demo_lib long_level_caption = Inl ValueError"
  by (simp add: parse_caption_def demo_lib_def long_level_caption_def)

text \<open>
  Claim C9, as stated, fails: it says that an item with a non-empty text, a new key and a
  rating token that does not parse is written all the same. Before it looks at the rating,
  the loop body calls \<^verbatim>\<open>parse_caption\<close> unguarded, and \<^verbatim>\<open>int\<close> raises on a level of more than
  4300 digits: the exception leaves the loop and no row is written for the item.
\<close>

theorem unparsable_rating_lost_counterexample:
  "str_strip demo_lib (it_text item_long_level) \<noteq> [] \<and>
   item_key demo_lib demo_params item_long_level \<notin> seen_keys after_card_a \<and>
   float_of demo_lib (replace_comma (str_strip demo_lib (it_rating_raw item_long_level))) = None \<and>
   write_items demo_lib demo_clock demo_params [item_long_level] after_card_a =
     (after_card_a, Inl ValueError)"
proof -
  have c: "it_caption item_long_level = long_level_caption"
    by (simp add: item_long_level_def)
  have t: "str_strip demo_lib (it_text item_long_level) \<noteq> []"
    by (simp add: demo_lib_def item_long_level_def item_b_def)
  have k: "item_key demo_lib demo_params item_long_level \<notin> seen_keys after_card_a"
    by (simp add: item_key_def review_key_of_def key_text_def demo_lib_def demo_params_def
          item_long_level_def item_b_def after_card_a_def)
  have r: "float_of demo_lib (replace_comma (str_strip demo_lib (it_rating_raw item_long_level))) = None"
    by (simp add: demo_lib_def item_long_level_def item_b_def replace_comma_def)
  have e: "item_error demo_lib demo_params after_card_a item_long_level = Some ValueError"
    using t by (simp add: item_error_def c demo_long_level)
  have w: "write_items demo_lib demo_clock demo_params [item_long_level] after_card_a =
     (after_card_a, Inl ValueError)"
    by (simp add: write_items_step e del: write_items.simps(2))
  from t k r w show ?thesis by blast
qed

text \<open>
  Claim C9, amended. An item whose raw rating token is empty (after stripping) or does not
  parse as a number is still written, provided its text is not empty, its key is new and
  the loop body raises nothing on it (\<^verbatim>\<open>parse_caption\<close> returns, the string of the key
  encodes, the write succeeds): the loop appends a row for it whose parsed rating is \<open>None\<close>
  and whose \<open>rating_raw\<close> is the token as it was read, whatever items follow in the round.
\<close>

theorem unparsable_rating_still_written:
  assumes "str_strip L (it_text it) \<noteq> []"
    and "item_key L P it \<notin> seen_keys s"
    and "str_strip L (it_rating_raw it) = [] \<or>
         float_of L (replace_comma (str_strip L (it_rating_raw it))) = None"
    and "parse_caption L (it_caption it) = Inr parts"
    and "encodes L (key_text (org_id P) (it_author_id it) (it_date_iso it) (it_rating_raw it)
                      (str_strip L (it_text it)))"
    and "it_write it = None"
  shows "to_float L (it_rating_raw it) = None \<and>
         (\<exists>rest. out_f (fst (write_items L clock P (it # its) s)) =
                   out_f s @ row_of L clock P s it # rest) \<and>
         row_rating (row_of L clock P s it) = None \<and>
         row_rating_raw (row_of L clock P s it) = it_rating_raw it \<and>
         row_text (row_of L clock P s it) = str_strip L (it_text it) \<and>
         row_review_key (row_of L clock P s it) = item_key L P it"
proof -
  have f: "to_float L (it_rating_raw it) = None"
    using assms(3) by (auto simp: to_float_def Let_def)
  have ne: "item_error L P s it = None"
    using assms(1,2,4,5,6) by (simp add: item_error_def)
  have "\<exists>rest. out_f (fst (write_items L clock P (it # its) s)) =
                   out_f s @ row_of L clock P s it # rest"
  proof (cases "max_reviews P > 0 \<and> total_written s + 1 \<ge> max_reviews P")
    case True
    with assms(1,2) ne have "write_items L clock P (it # its) s = (emit L clock P it s, Inr True)"
      by (simp add: write_items_step del: write_items.simps(2))
    then show ?thesis by (simp add: emit_def)
  next
    case False
    with assms(1,2) ne
    have "write_items L clock P (it # its) s = write_items L clock P its (emit L clock P it s)"
      by (auto simp add: write_items_step simp del: write_items.simps(2))
    moreover obtain new where
      "out_f (fst (write_items L clock P its (emit L clock P it s))) =
        out_f (emit L clock P it s) @ new"
      using write_items_prefix by blast
    ultimately show ?thesis by (simp add: emit_def)
  qed
  with f show ?thesis by (simp add: row_of_def)
qed

lemma demo_write_b:
  "write_items demo_lib demo_clock demo_params [item_b, item_a] after_card_a =
    (\<lparr>max_pos_parsed = 1, no_progress = 0, total_written = 2, out_f = [row_a, row_b],
      seen_keys = {''unknown|u2|2024-02-03|n/a|bad'', ''unknown|u1|2024-01-02T03:04|5|good''}\<rparr>,
     Inr False)"
  by (simp add: demo_simps demo_params_def after_card_a_def item_a_def item_b_def)

theorem unparsable_rating_still_written_witness:
  "str_strip demo_lib (it_text item_b) \<noteq> [] \<and>
   item_key demo_lib demo_params item_b \<notin> seen_keys after_card_a \<and>
   float_of demo_lib (replace_comma (str_strip demo_lib (it_rating_raw item_b))) = None \<and>
   parse_caption demo_lib (it_caption item_b) = Inr ([], [], None) \<and>
   encodes demo_lib (key_text (org_id demo_params) (it_author_id item_b) (it_date_iso item_b)
                       (it_rating_raw item_b) (str_strip demo_lib (it_text item_b))) \<and>
   it_write item_b = None \<and>
   out_f (fst (write_items demo_lib demo_clock demo_params [item_b, item_a] after_card_a)) =
     [row_a, row_b] \<and>
   row_of demo_lib demo_clock demo_params after_card_a item_b = row_b \<and>
   row_rating row_b = None \<and> row_rating_raw row_b = ''n/a''"
proof -
  have t: "str_strip demo_lib (it_text item_b) \<noteq> []"
    by (simp add: demo_lib_def item_b_def)
  have k: "item_key demo_lib demo_params item_b \<notin> seen_keys after_card_a"
    by (simp add: item_key_def review_key_of_def key_text_def demo_lib_def demo_params_def
          item_b_def after_card_a_def)
  have r: "float_of demo_lib (replace_comma (str_strip demo_lib (it_rating_raw item_b))) = None"
    by (simp add: demo_lib_def item_b_def replace_comma_def)
  have c: "parse_caption demo_lib (it_caption item_b) = Inr ([], [], None)"
    by (simp add: parse_caption_def demo_lib_def item_b_def)
  have e: "encodes demo_lib (key_text (org_id demo_params) (it_author_id item_b)
             (it_date_iso item_b) (it_rating_raw item_b) (str_strip demo_lib (it_text item_b)))"
    by (simp add: demo_lib_def)
  have w: "it_write item_b = None"
    by (simp add: item_b_def)
  have o: "row_of demo_lib demo_clock demo_params after_card_a item_b = row_b"
    by (simp add: row_of_def item_key_def caption_parts_def demo_simps demo_params_def
          item_b_def after_card_a_def)
  have d: "out_f (fst (write_items demo_lib demo_clock demo_params [item_b, item_a] after_card_a)) =
     [row_a, row_b]"
    unfolding demo_write_b by simp
  note u = unparsable_rating_still_written[OF t k disjI2[OF r] c e w, of demo_clock "[item_a]"]
  have "row_rating (row_of demo_lib demo_clock demo_params after_card_a item_b) = None"
    and "row_rating_raw (row_of demo_lib demo_clock demo_params after_card_a item_b) =
           it_rating_raw item_b"
    using u by blast+
  then have "row_rating row_b = None" and "row_rating_raw row_b = ''n/a''"
    unfolding o by (simp_all add: item_b_def)
  with t k r c e w d o show ?thesis by blast
qed

section \<open>The cap on the rows of one source\<close>

lemma write_items_cap:
  assumes "0 < max_reviews P" and "total_written s < max_reviews P"
  shows "if snd (write_items L clock P its s) = Inr True
         then total_written (fst (write_items L clock P its s)) = max_reviews P
         else total_written (fst (write_items L clock P its s)) < max_reviews P"
  using assms(2)
proof (induction its arbitrary: s)
  case Nil
  then show ?case by simp
next
  case (Cons it its)
  show ?case
  proof (cases "item_error L P s it")
    case (Some e)
    with Cons.prems show ?thesis by (simp add: write_items_step del: write_items.simps(2))
  next
    case None
    show ?thesis
    proof (cases "str_strip L (it_text it) = [] \<or> item_key L P it \<in> seen_keys s")
      case True
      then show ?thesis
        using None Cons.IH[OF Cons.prems] by (simp add: write_items_step del: write_items.simps(2))
    next
      case False
      show ?thesis
      proof (cases "total_written s + 1 \<ge> max_reviews P")
        case True
        with False None assms(1) Cons.prems show ?thesis
          by (simp add: write_items_step emit_frame del: write_items.simps(2))
      next
        case nc: False
        then have "total_written (emit L clock P it s) < max_reviews P"
          by (simp add: emit_frame)
        from Cons.IH[OF this] False None nc show ?thesis
          by (simp add: write_items_step del: write_items.simps(2))
      qed
    qed
  qed
qed

lemma write_items_returned_ignores_rest:
  "snd (write_items L clock P its s) = Inr True \<Longrightarrow>
   write_items L clock P (its @ extra) s = write_items L clock P its s"
  by (induction its arbitrary: s)
     (auto simp add: write_items_step simp del: write_items.simps(2)
           split: if_splits option.splits)

lemma extract_and_write_cap:
  assumes "0 < max_reviews P" and "total_written s < max_reviews P"
    and "extract_and_write L clock P r s = (s', f)"
  shows "total_written s' \<le> max_reviews P \<and>
         (total_written s' = max_reviews P \<longrightarrow>
            f = (case r_flush r of None \<Rightarrow> Return (max_reviews P) | Some e \<Rightarrow> Raised e))"
proof (cases "r_eval r")
  case (Inl e)
  with assms(3) have "total_written s' = total_written s"
    by (auto simp: extract_and_write_def stall_check_and_scroll_def
             split: if_splits option.splits)
  with assms(2) show ?thesis by simp
next
  case (Inr els)
  obtain items max_seen where j: "js_extract_new els (max_pos_parsed s) = (items, max_seen)"
    by (cases "js_extract_new els (max_pos_parsed s)") auto
  obtain s2 ended where w: "write_items L clock P items s = (s2, ended)"
    by (cases "write_items L clock P items s") auto
  note c = write_items_cap[OF assms(1,2), of L clock items]
  show ?thesis
  proof (cases "ended = Inr True")
    case True
    with Inr j w assms(3)
    have "s' = s2" "f = (case r_flush r of None \<Rightarrow> Return (total_written s2) | Some e \<Rightarrow> Raised e)"
      by (auto simp add: extract_and_write_def split: option.splits)
    with c w True show ?thesis by (simp split: option.splits)
  next
    case False
    have lt: "total_written s2 < max_reviews P" using c w False by simp
    have "total_written s' = total_written s2"
    proof (cases ended)
      case (Inl e)
      with Inr j w assms(3) show ?thesis by (simp add: extract_and_write_def)
    next
      case (Inr b)
      with False have nb: "\<not> b" by simp
      show ?thesis
      proof (cases "r_flush r")
        case (Some e)
        with \<open>r_eval r = Inr els\<close> j w Inr assms(3) show ?thesis
          by (simp add: extract_and_write_def)
      next
        case None
        with \<open>r_eval r = Inr els\<close> j w Inr nb assms(3)
        have "(s', f) = stall_check_and_scroll P r (advance_watermark max_seen s2)"
          by (simp add: extract_and_write_def)
        then have "s' = advance_watermark max_seen s2"
          using stall_fst[of P r "advance_watermark max_seen s2"] by (metis fst_conv)
        then show ?thesis by (simp add: advance_watermark_frame)
      qed
    qed
    with lt show ?thesis by simp
  qed
qed

lemma collect_round_cap:
  assumes "0 < max_reviews P" and "total_written s < max_reviews P"
    and "collect_round L clock P r s = (s', f)"
  shows "total_written s' \<le> max_reviews P \<and>
         (total_written s' = max_reviews P \<longrightarrow>
            f = (case r_flush r of None \<Rightarrow> Return (max_reviews P) | Some e \<Rightarrow> Raised e))"
proof (cases "extract_and_write L clock P r s = (s', f)")
  case True
  with assms show ?thesis using extract_and_write_cap by blast
next
  case False
  with assms(3) have "s' = s"
    by (auto simp: collect_round_def split: if_splits sum.splits)
  with assms(2) show ?thesis by simp
qed

lemma rounds_cap:
  assumes "0 < max_reviews P" and "total_written s < max_reviews P"
  shows "total_written (fst (rounds L clock P obs i n s)) \<le> max_reviews P \<and>
         (total_written (fst (rounds L clock P obs i n s)) = max_reviews P \<longrightarrow>
            (\<exists>e. snd (rounds L clock P obs i n s) = Inl e) \<or>
            snd (rounds L clock P obs i n s) = Inr (max_reviews P))"
  using assms(2)
proof (induction n arbitrary: i s)
  case 0
  then show ?case by simp
next
  case (Suc n)
  obtain s1 f where c: "collect_round L clock P (obs i) s = (s1, f)"
    by (cases "collect_round L clock P (obs i) s") auto
  note k = collect_round_cap[OF assms(1) Suc.prems c]
  show ?case
  proof (cases f)
    case NextRound
    with k have "total_written s1 < max_reviews P" by (auto split: option.splits)
    from Suc.IH[OF this] c NextRound show ?thesis by simp
  qed (use c k in \<open>auto split: option.splits\<close>)
qed

lemma upt_next: "[i..<i + Suc n] = i # [Suc i..<Suc i + n]"
  by (simp add: upt_conv_Cons del: upt_Suc)

lemma rounds_cap_flushed:
  assumes "0 < max_reviews P" and "total_written s < max_reviews P"
    and "list_all flushes (map obs [i..<i + n])"
    and "total_written (fst (rounds L clock P obs i n s)) = max_reviews P"
  shows "snd (rounds L clock P obs i n s) = Inr (max_reviews P)"
  using assms(2,3,4)
proof (induction n arbitrary: i s)
  case 0
  then show ?case by simp
next
  case (Suc n)
  have fi0: "flushes (obs i)" and rest: "list_all flushes (map obs [Suc i..<Suc i + n])"
    using Suc.prems(2) unfolding upt_next by simp_all
  have fi: "r_flush (obs i) = None" using fi0 by (simp add: flushes_def)
  obtain s1 f where c: "collect_round L clock P (obs i) s = (s1, f)"
    by (cases "collect_round L clock P (obs i) s") auto
  note k = collect_round_cap[OF assms(1) Suc.prems(1) c]
  show ?case
  proof (cases f)
    case NextRound
    with k fi have lt: "total_written s1 < max_reviews P" by auto
    from Suc.IH[OF lt rest] Suc.prems(3) c NextRound show ?thesis by simp
  qed (use c k fi Suc.prems(3) in auto)
qed

lemma stream_scroll_collect_count:
  "int (length (fst (stream_scroll_collect L clock P obs fl seen0))) =
   int (length fl) +
   total_written (fst (rounds L clock P obs 0 (nat (max_rounds P))
     \<lparr>max_pos_parsed = 0, no_progress = 0, total_written = 0, out_f = fl, seen_keys = seen0\<rparr>))"
  using rounds_extends[of L
      "\<lparr>max_pos_parsed = 0, no_progress = 0, total_written = 0, out_f = fl, seen_keys = seen0\<rparr>"
      clock P obs 0 "nat (max_rounds P)"]
  by (auto simp: stream_scroll_collect_def extends_def appended_def split: prod.splits)

text \<open>
  Claim C5, as stated, fails: it says that the loop returns normally, with the cap as count,
  as soon as the rows written for the source reach the cap. Between reaching the cap and
  returning, line 486 flushes the output file unguarded; when that flush raises, the
  exception leaves the loop in place of the count. Here the cap is 1, the first card is
  written, and the flush fails.
\<close>

theorem cap_then_flush_raises_counterexample:
  "0 < max_reviews capped_params \<and>
   stream_scroll_collect demo_lib demo_clock capped_params (\<lambda>i. flush_fails) [] {} =
     ([row_a], {''unknown|u1|2024-01-02T03:04|5|good''}, Inl OtherException)"
  by (simp add: demo_simps capped_params_def demo_params_def flush_fails_def)

text \<open>
  Claim C5, amended. With a positive cap \<open>max_reviews\<close> the collection of a source stops as
  soon as the rows written for it reach the cap, and this is a normal return of the cap
  provided the flush that precedes the return does not raise. For a whole call: it appends
  at most \<open>max_reviews\<close> rows, and when it has appended that many and no flush has raised it
  returns \<open>max_reviews\<close>. For the item loop, started below the cap: the cap check fires
  exactly when the count has reached the cap, the items after that point are not looked at
  (any further items leave the result unchanged), and the round then ends without stall
  check or scroll, returning the cap, or raising what the flush raises; while the cap check
  has not fired, the count is below the cap.
\<close>

theorem cap_ends_source:
  assumes "0 < max_reviews P"
  shows "int (length (fst (stream_scroll_collect L clock P obs fl seen0))) \<le>
           int (length fl) + max_reviews P \<and>
         (list_all flushes (map obs [0..<nat (max_rounds P)]) \<and>
          int (length (fst (stream_scroll_collect L clock P obs fl seen0))) =
            int (length fl) + max_reviews P \<longrightarrow>
          snd (snd (stream_scroll_collect L clock P obs fl seen0)) = Inr (max_reviews P)) \<and>
         (total_written s < max_reviews P \<longrightarrow>
          (if snd (write_items L clock P its s) = Inr True
           then total_written (fst (write_items L clock P its s)) = max_reviews P \<and>
                write_items L clock P (its @ extra) s = write_items L clock P its s \<and>
                (r_eval r = Inr els \<and> fst (js_extract_new els (max_pos_parsed s)) = its \<longrightarrow>
                 extract_and_write L clock P r s =
                   (fst (write_items L clock P its s),
                    case r_flush r of None \<Rightarrow> Return (max_reviews P) | Some e \<Rightarrow> Raised e))
           else total_written (fst (write_items L clock P its s)) < max_reviews P))"
proof -
  let ?s0 = "\<lparr>max_pos_parsed = 0, no_progress = 0, total_written = 0, out_f = fl,
              seen_keys = seen0\<rparr>"
  let ?r = "rounds L clock P obs 0 (nat (max_rounds P)) ?s0"
  have z: "total_written ?s0 < max_reviews P" using assms by simp
  note k = rounds_cap[OF assms z, of L clock obs 0 "nat (max_rounds P)"]
  have res: "snd (snd (stream_scroll_collect L clock P obs fl seen0)) = snd ?r"
    by (simp add: stream_scroll_collect_def split: prod.splits)
  have a: "int (length (fst (stream_scroll_collect L clock P obs fl seen0))) \<le>
           int (length fl) + max_reviews P"
    using k by (simp add: stream_scroll_collect_count)
  have b: "list_all flushes (map obs [0..<nat (max_rounds P)]) \<and>
          int (length (fst (stream_scroll_collect L clock P obs fl seen0))) =
            int (length fl) + max_reviews P \<longrightarrow>
          snd (snd (stream_scroll_collect L clock P obs fl seen0)) = Inr (max_reviews P)"
    using rounds_cap_flushed[OF assms z, of obs 0 "nat (max_rounds P)" L clock]
    by (simp add: stream_scroll_collect_count res)
  have c: "total_written s < max_reviews P \<longrightarrow>
          (if snd (write_items L clock P its s) = Inr True
           then total_written (fst (write_items L clock P its s)) = max_reviews P \<and>
                write_items L clock P (its @ extra) s = write_items L clock P its s \<and>
                (r_eval r = Inr els \<and> fst (js_extract_new els (max_pos_parsed s)) = its \<longrightarrow>
                 extract_and_write L clock P r s =
                   (fst (write_items L clock P its s),
                    case r_flush r of None \<Rightarrow> Return (max_reviews P) | Some e \<Rightarrow> Raised e))
           else total_written (fst (write_items L clock P its s)) < max_reviews P)"
  proof
    assume lt: "total_written s < max_reviews P"
    note w = write_items_cap[OF assms lt, of L clock its]
    show "if snd (write_items L clock P its s) = Inr True
           then total_written (fst (write_items L clock P its s)) = max_reviews P \<and>
                write_items L clock P (its @ extra) s = write_items L clock P its s \<and>
                (r_eval r = Inr els \<and> fst (js_extract_new els (max_pos_parsed s)) = its \<longrightarrow>
                 extract_and_write L clock P r s =
                   (fst (write_items L clock P its s),
                    case r_flush r of None \<Rightarrow> Return (max_reviews P) | Some e \<Rightarrow> Raised e))
           else total_written (fst (write_items L clock P its s)) < max_reviews P"
    proof (cases "snd (write_items L clock P its s) = Inr True")
      case True
      have "r_eval r = Inr els \<and> fst (js_extract_new els (max_pos_parsed s)) = its \<longrightarrow>
                 extract_and_write L clock P r s =
                   (fst (write_items L clock P its s),
                    case r_flush r of None \<Rightarrow> Return (max_reviews P) | Some e \<Rightarrow> Raised e)"
        using True w by (auto simp: extract_and_write_def split: prod.splits option.splits)
      with True w write_items_returned_ignores_rest[OF True, of extra] show ?thesis by simp
    next
      case False
      with w show ?thesis by simp
    qed
  qed
  from a b c show ?thesis by blast
qed

lemma demo_capped:
  "stream_scroll_collect demo_lib demo_clock capped_params (\<lambda>i. seeing [card_a, card_b]) [] {} =
    ([row_a], {''unknown|u1|2024-01-02T03:04|5|good''}, Inr 1)"
  by (simp add: demo_simps capped_params_def demo_params_def)

lemma demo_capped_items:
  "write_items demo_lib demo_clock capped_params [item_a, item_b] fresh_state =
    (after_card_a\<lparr>max_pos_parsed := 0\<rparr>, Inr True)"
  by (simp add: demo_simps capped_params_def demo_params_def fresh_state_def item_a_def
        item_b_def after_card_a_def)

lemma demo_extracted:
  "fst (js_extract_new [card_a, card_b] (max_pos_parsed fresh_state)) = [item_a, item_b]"
  by (simp add: demo_simps fresh_state_def item_a_def item_b_def)

theorem cap_ends_source_witness:
  "0 < max_reviews capped_params \<and>
   list_all flushes (map (\<lambda>i. seeing [card_a, card_b]) [0..<nat (max_rounds capped_params)]) \<and>
   stream_scroll_collect demo_lib demo_clock capped_params (\<lambda>i. seeing [card_a, card_b]) [] {} =
     ([row_a], {''unknown|u1|2024-01-02T03:04|5|good''}, Inr (max_reviews capped_params)) \<and>
   total_written fresh_state < max_reviews capped_params \<and>
   snd (write_items demo_lib demo_clock capped_params [item_a, item_b] fresh_state) = Inr True \<and>
   write_items demo_lib demo_clock capped_params ([item_a, item_b] @ [item_b]) fresh_state =
     write_items demo_lib demo_clock capped_params [item_a, item_b] fresh_state \<and>
   r_eval (seeing [card_a, card_b]) = Inr [card_a, card_b] \<and>
   fst (js_extract_new [card_a, card_b] (max_pos_parsed fresh_state)) = [item_a, item_b] \<and>
   extract_and_write demo_lib demo_clock capped_params (seeing [card_a, card_b]) fresh_state =
     (after_card_a\<lparr>max_pos_parsed := 0\<rparr>, Return (max_reviews capped_params))"
proof -
  have p: "0 < max_reviews capped_params"
    by (simp add: capped_params_def demo_params_def)
  have fl: "list_all flushes
              (map (\<lambda>i. seeing [card_a, card_b]) [0..<nat (max_rounds capped_params)])"
    by (simp add: list_all_iff flushes_def seeing_def)
  have t: "total_written fresh_state < max_reviews capped_params"
    by (simp add: capped_params_def demo_params_def fresh_state_def)
  have r: "snd (write_items demo_lib demo_clock capped_params [item_a, item_b] fresh_state) =
             Inr True"
    unfolding demo_capped_items by simp
  have e: "r_eval (seeing [card_a, card_b]) = Inr [card_a, card_b]"
    by (simp add: seeing_def)
  have f: "r_flush (seeing [card_a, card_b]) = None"
    by (simp add: seeing_def)
  note c = cap_ends_source[OF p, of demo_lib demo_clock "\<lambda>i. seeing [card_a, card_b]" "[]" "{}"
      fresh_state "[item_a, item_b]" "[item_b]" "seeing [card_a, card_b]" "[card_a, card_b]"]
  note c3 = mp[OF c[THEN conjunct2, THEN conjunct2] t]
  note c4 = c3[unfolded if_P[OF r]]
  have i: "write_items demo_lib demo_clock capped_params ([item_a, item_b] @ [item_b]) fresh_state =
     write_items demo_lib demo_clock capped_params [item_a, item_b] fresh_state"
    by (rule c4[THEN conjunct2, THEN conjunct1])
  have "extract_and_write demo_lib demo_clock capped_params (seeing [card_a, card_b]) fresh_state =
     (fst (write_items demo_lib demo_clock capped_params [item_a, item_b] fresh_state),
      case r_flush (seeing [card_a, card_b]) of
        None \<Rightarrow> Return (max_reviews capped_params) | Some e \<Rightarrow> Raised e)"
    by (rule mp[OF c4[THEN conjunct2, THEN conjunct2] conjI[OF e demo_extracted]])
  then have x: "extract_and_write demo_lib demo_clock capped_params (seeing [card_a, card_b]) fresh_state =
     (after_card_a\<lparr>max_pos_parsed := 0\<rparr>, Return (max_reviews capped_params))"
    unfolding demo_capped_items f by simp
  have m: "max_reviews capped_params = 1"
    by (simp add: capped_params_def demo_params_def)
  have d: "stream_scroll_collect demo_lib demo_clock capped_params (\<lambda>i. seeing [card_a, card_b]) [] {} =
     ([row_a], {''unknown|u1|2024-01-02T03:04|5|good''}, Inr (max_reviews capped_params))"
    unfolding m by (rule demo_capped)
  from p fl d t r i e demo_extracted x show ?thesis by blast
qed

section \<open>Stall limit and round budget\<close>

lemma stall_check_cases:
  "stall_check_and_scroll P r s =
    (s, if no_progress_limit P \<le> no_progress s then Break
        else (case r_scroll r of Some e \<Rightarrow> Raised e | None \<Rightarrow> NextRound))"
  by (simp add: stall_check_and_scroll_def split: option.splits)

lemma extract_and_write_next:
  "extract_and_write L clock P r s = (s', NextRound) \<Longrightarrow> no_progress s' < no_progress_limit P"
  by (auto simp: extract_and_write_def stall_check_cases
           split: sum.splits prod.splits if_splits option.splits)

lemma collect_round_next:
  "collect_round L clock P r s = (s', NextRound) \<Longrightarrow> no_progress s' < no_progress_limit P"
  by (auto simp: collect_round_def dest: extract_and_write_next split: sum.splits if_splits)

lemma item_quiet_no_error: "item_quiet L P it \<Longrightarrow> item_error L P s it = None"
  by (auto simp: item_quiet_def item_error_def split: sum.splits)

lemma write_items_quiet:
  "list_all (item_quiet L P) its \<Longrightarrow> \<exists>b. snd (write_items L clock P its s) = Inr b"
  by (induction its arbitrary: s)
     (auto simp add: write_items_step item_quiet_no_error simp del: write_items.simps(2))

lemma js_loop_quiet:
  "list_all (card_quiet L P) els \<Longrightarrow> list_all (item_quiet L P) acc \<Longrightarrow>
   list_all (item_quiet L P) (fst (js_loop els w m acc))"
  by (induction els arbitrary: m acc)
     (auto simp: card_quiet_def item_quiet_def split: option.splits)

lemma extract_and_write_calm:
  assumes "calm L P r"
  shows "snd (extract_and_write L clock P r s) \<noteq> Raised e"
proof (cases "r_eval r")
  case (Inl x)
  with assms show ?thesis
    by (auto simp: calm_def extract_and_write_def stall_check_cases)
next
  case (Inr els)
  with assms have q: "list_all (card_quiet L P) els" and f: "r_flush r = None"
    and sc: "r_scroll r = None"
    by (simp_all add: calm_def)
  have "list_all (item_quiet L P) (fst (js_extract_new els (max_pos_parsed s)))"
    unfolding js_extract_new_def by (rule js_loop_quiet[OF q]) simp
  from write_items_quiet[OF this, of clock s] obtain b where
    "snd (write_items L clock P (fst (js_extract_new els (max_pos_parsed s))) s) = Inr b"
    by blast
  with Inr f sc show ?thesis
    by (auto simp: extract_and_write_def stall_check_cases split: prod.splits if_splits)
qed

lemma collect_round_calm:
  "calm L P r \<Longrightarrow> snd (collect_round L clock P r s) \<noteq> Raised e"
proof -
  assume c: "calm L P r"
  show ?thesis
  proof (cases "detect_captcha_or_block L (r_page r)")
    case False
    then show ?thesis using extract_and_write_calm[OF c] by (simp add: collect_round_def)
  next
    case True
    with c obtain a where "fst (handle_captcha_interactive L (headful P) (r_operator r)) = Inr a"
      by (auto simp: calm_def split: sum.splits)
    with True show ?thesis using extract_and_write_calm[OF c] by (simp add: collect_round_def)
  qed
qed

lemma rounds_calm:
  "list_all (calm L P) (map obs [i..<i + n]) \<Longrightarrow>
   snd (rounds L clock P obs i n s) = Inr (total_written (fst (rounds L clock P obs i n s)))"
proof (induction n arbitrary: i s)
  case 0
  show ?case by simp
next
  case (Suc n)
  have ci: "calm L P (obs i)" and rest: "list_all (calm L P) (map obs [Suc i..<Suc i + n])"
    using Suc.prems unfolding upt_next by simp_all
  obtain s1 f where c: "collect_round L clock P (obs i) s = (s1, f)"
    by (cases "collect_round L clock P (obs i) s") auto
  show ?case
  proof (cases f)
    case NextRound
    with c Suc.IH[OF rest, of s1] show ?thesis by simp
  next
    case Break
    with c show ?thesis by simp
  next
    case (Return v)
    with c collect_round_return[of L clock P "obs i" s s1 v] show ?thesis by simp
  next
    case (Raised e)
    with c collect_round_calm[OF ci, of clock s e] show ?thesis by simp
  qed
qed

lemma rounds_reads_budget:
  "map obs [i..<i + n] = map obs' [i..<i + n] \<Longrightarrow>
   rounds L clock P obs i n s = rounds L clock P obs' i n s"
proof (induction n arbitrary: i s)
  case 0
  show ?case by simp
next
  case (Suc n)
  have h: "obs i = obs' i" and rest: "map obs [Suc i..<Suc i + n] = map obs' [Suc i..<Suc i + n]"
    using Suc.prems unfolding upt_next by simp_all
  show ?case using h Suc.IH[OF rest] by (simp split: prod.splits flow.splits)
qed

lemma rounds_stops_at_stall:
  assumes "collect_round L clock P (obs i) s = (s', f)"
    and "no_progress_limit P \<le> no_progress s'"
    and "f = Break \<or> f = NextRound \<or> f = Return v"
  shows "rounds L clock P obs i (Suc n) s = (s', Inr (total_written s'))"
proof (cases f)
  case NextRound
  with assms(1,2) collect_round_next[of L clock P "obs i" s s'] show ?thesis by simp
next
  case Break
  with assms(1) show ?thesis by simp
next
  case (Return x)
  with assms(1) collect_round_return[of L clock P "obs i" s s' x] show ?thesis by simp
next
  case (Raised e)
  with assms(3) show ?thesis by simp
qed

lemma stream_scroll_collect_calm:
  assumes "list_all (calm L P) (map obs [0..<nat (max_rounds P)])"
  shows "snd (snd (stream_scroll_collect L clock P obs fl seen0)) =
         Inr (int (length (fst (stream_scroll_collect L clock P obs fl seen0))) - int (length fl))"
proof -
  let ?s0 = "\<lparr>max_pos_parsed = 0, no_progress = 0, total_written = 0, out_f = fl,
              seen_keys = seen0\<rparr>"
  let ?r = "rounds L clock P obs 0 (nat (max_rounds P)) ?s0"
  have "snd ?r = Inr (total_written (fst ?r))"
    using rounds_calm[of L P obs 0 "nat (max_rounds P)" clock ?s0] assms by simp
  moreover have "snd (snd (stream_scroll_collect L clock P obs fl seen0)) = snd ?r"
    by (simp add: stream_scroll_collect_def split: prod.splits)
  ultimately show ?thesis by (simp add: stream_scroll_collect_count)
qed

lemma stream_scroll_collect_reads_budget:
  assumes "map obs [0..<nat (max_rounds P)] = map obs' [0..<nat (max_rounds P)]"
  shows "stream_scroll_collect L clock P obs fl seen0 = stream_scroll_collect L clock P obs' fl seen0"
  using rounds_reads_budget[of obs 0 "nat (max_rounds P)" obs' L clock P] assms
  by (simp add: stream_scroll_collect_def)

lemma extract_and_write_counter:
  assumes "r_eval r = Inr els"
    and "snd (write_items L clock P (fst (js_extract_new els (max_pos_parsed s))) s) = Inr False"
    and "r_flush r = None"
  shows "no_progress (fst (extract_and_write L clock P r s)) =
           (if max_pos_parsed s < snd (js_extract_new els (max_pos_parsed s)) then 0
            else no_progress s + 1) \<and>
         max_pos_parsed (fst (extract_and_write L clock P r s)) =
           (if max_pos_parsed s < snd (js_extract_new els (max_pos_parsed s))
            then snd (js_extract_new els (max_pos_parsed s)) else max_pos_parsed s)"
proof -
  obtain items max_seen where j: "js_extract_new els (max_pos_parsed s) = (items, max_seen)"
    by (cases "js_extract_new els (max_pos_parsed s)") auto
  obtain s2 ended where w: "write_items L clock P items s = (s2, ended)"
    by (cases "write_items L clock P items s") auto
  have fr: "max_pos_parsed s2 = max_pos_parsed s" "no_progress s2 = no_progress s"
    using write_items_frame[of L clock P items s] w by simp_all
  have "fst (extract_and_write L clock P r s) = advance_watermark max_seen s2"
    using assms j w by (simp add: extract_and_write_def stall_fst)
  then show ?thesis using j fr by (simp add: advance_watermark_def Let_def)
qed

lemma rounds_raised:
  "collect_round L clock P (obs i) s = (s', Raised e) \<Longrightarrow>
   rounds L clock P obs i (Suc n) s = (s', Inl e)"
  by simp

text \<open>
  Claim C6, as stated, fails: it says that the loop always ends by returning the count
  written so far. A call that the loop does not guard can raise, and then the exception
  leaves the loop instead of a count: here the evaluation of the first round raises an
  error that is not the timeout.
\<close>

theorem collect_can_raise_counterexample:
  "snd (snd (stream_scroll_collect demo_lib demo_clock demo_params (\<lambda>i. failing_round) [] {})) =
     Inl OtherException"
  by (simp add: demo_simps demo_params_def failing_round_def)

text \<open>
  Claim C6, amended. The loop ends without raising, returning the count written so far, at
  the end of the first round that leaves the no-progress counter at or above
  \<open>no_progress_limit\<close>: a round whose items are all processed and flushed increments the
  counter when the maximum observed position does not exceed the watermark and resets it to
  0 (moving the watermark) when it does; with the counter at the limit the stall check
  breaks before the scroll step; and a round that ends without an exception and with the
  counter at the limit ends the loop with the count. The loop reads at most the first
  \<open>max_rounds\<close> rounds, and when none of them raises an exception that the loop leaves
  unhandled (the operator prompt, the evaluation apart from its timeout, on a visible card
  \<^verbatim>\<open>parse_caption\<close>, \<^verbatim>\<open>sha1\<close> or the write, the flush, the scroll step), the call returns
  the number of rows it has appended. An exception that a round raises leaves the loop.
\<close>

theorem stall_limit_and_budget:
  "(r_eval r = Inr els \<and>
      snd (write_items L clock P (fst (js_extract_new els (max_pos_parsed s))) s) = Inr False \<and>
      r_flush r = None \<longrightarrow>
    no_progress (fst (extract_and_write L clock P r s)) =
      (if max_pos_parsed s < snd (js_extract_new els (max_pos_parsed s)) then 0
       else no_progress s + 1) \<and>
    max_pos_parsed (fst (extract_and_write L clock P r s)) =
      (if max_pos_parsed s < snd (js_extract_new els (max_pos_parsed s))
       then snd (js_extract_new els (max_pos_parsed s)) else max_pos_parsed s)) \<and>
   (no_progress_limit P \<le> no_progress s1 \<longrightarrow> stall_check_and_scroll P r1 s1 = (s1, Break)) \<and>
   (collect_round L clock P (obs i) s2 = (s', f) \<and> no_progress_limit P \<le> no_progress s' \<and>
      (f = Break \<or> f = NextRound \<or> f = Return v) \<longrightarrow>
    rounds L clock P obs i (Suc n) s2 = (s', Inr (total_written s'))) \<and>
   (list_all (calm L P) (map obs [0..<nat (max_rounds P)]) \<longrightarrow>
    snd (snd (stream_scroll_collect L clock P obs fl seen0)) =
      Inr (int (length (fst (stream_scroll_collect L clock P obs fl seen0))) - int (length fl))) \<and>
   (map obs [0..<nat (max_rounds P)] = map obs' [0..<nat (max_rounds P)] \<longrightarrow>
    stream_scroll_collect L clock P obs fl seen0 = stream_scroll_collect L clock P obs' fl seen0) \<and>
   (collect_round L clock P (obs2 j) s3 = (s'', Raised e) \<longrightarrow>
    rounds L clock P obs2 j (Suc k) s3 = (s'', Inl e))"
  using extract_and_write_counter[of r els L clock P s]
    stall_check_cases[of P r1 s1]
    rounds_stops_at_stall[of L clock P obs i s2 s' f v n]
    stream_scroll_collect_calm[of L P obs clock fl seen0]
    stream_scroll_collect_reads_budget[of obs P obs' L clock fl seen0]
    rounds_raised[of L clock P obs2 j s3 s'' e k]
  by auto

lemma demo_stalled_round:
  "collect_round demo_lib demo_clock demo_params (seeing [card_a, card_b]) stalled_once =
    (stalled_once\<lparr>no_progress := 2\<rparr>, Break)"
  by (simp add: demo_simps demo_params_def stalled_once_def)

lemma demo_collect:
  "stream_scroll_collect demo_lib demo_clock demo_params (\<lambda>i. seeing [card_a, card_b]) [] {} =
    ([row_a, row_b],
     {''unknown|u2|2024-02-03|n/a|bad'', ''unknown|u1|2024-01-02T03:04|5|good''}, Inr 2)"
  by (simp add: demo_simps demo_params_def)

lemma demo_calm: "calm demo_lib demo_params (seeing [card_a, card_b])"
  by (simp add: calm_def card_quiet_def demo_simps card_a_def card_b_def)

lemma demo_failing_round:
  "collect_round demo_lib demo_clock demo_params failing_round fresh_state =
    (fresh_state, Raised OtherException)"
  by (simp add: demo_simps demo_params_def failing_round_def)

theorem stall_limit_and_budget_witness:
  "no_progress (fst (extract_and_write demo_lib demo_clock demo_params (seeing [card_a, card_b])
                       stalled_once)) = 2 \<and>
   no_progress_limit demo_params \<le> no_progress (stalled_once\<lparr>no_progress := 2\<rparr>) \<and>
   stall_check_and_scroll demo_params (seeing [card_a, card_b]) (stalled_once\<lparr>no_progress := 2\<rparr>) =
     (stalled_once\<lparr>no_progress := 2\<rparr>, Break) \<and>
   rounds demo_lib demo_clock demo_params (\<lambda>i. seeing [card_a, card_b]) 1 (Suc 7) stalled_once =
     (stalled_once\<lparr>no_progress := 2\<rparr>, Inr 2) \<and>
   list_all (calm demo_lib demo_params)
     (map (\<lambda>i. seeing [card_a, card_b]) [0..<nat (max_rounds demo_params)]) \<and>
   snd (snd (stream_scroll_collect demo_lib demo_clock demo_params
               (\<lambda>i. seeing [card_a, card_b]) [] {})) = Inr 2 \<and>
   stream_scroll_collect demo_lib demo_clock demo_params
     (\<lambda>i. if i < 3 then seeing [card_a, card_b] else failing_round) [] {} =
   stream_scroll_collect demo_lib demo_clock demo_params (\<lambda>i. seeing [card_a, card_b]) [] {} \<and>
   rounds demo_lib demo_clock demo_params (\<lambda>i. failing_round) 0 (Suc 2) fresh_state =
     (fresh_state, Inl OtherException)"
proof -
  have e: "r_eval (seeing [card_a, card_b]) = Inr [card_a, card_b]"
    by (simp add: seeing_def)
  have fl: "r_flush (seeing [card_a, card_b]) = None"
    by (simp add: seeing_def)
  have nr: "snd (write_items demo_lib demo_clock demo_params
              (fst (js_extract_new [card_a, card_b] (max_pos_parsed stalled_once))) stalled_once) =
            Inr False"
    by (simp add: demo_simps demo_params_def stalled_once_def)
  have l: "no_progress_limit demo_params \<le> no_progress (stalled_once\<lparr>no_progress := 2\<rparr>)"
    by (simp add: demo_params_def)
  have c: "list_all (calm demo_lib demo_params)
     (map (\<lambda>i. seeing [card_a, card_b]) [0..<nat (max_rounds demo_params)])"
    by (simp add: list_all_iff demo_calm)
  have m: "map (\<lambda>i. if i < 3 then seeing [card_a, card_b] else failing_round)
             [0..<nat (max_rounds demo_params)] =
           map (\<lambda>i. seeing [card_a, card_b]) [0..<nat (max_rounds demo_params)]"
    by (simp add: demo_params_def)
  have w: "max_pos_parsed stalled_once < snd (js_extract_new [card_a, card_b] (max_pos_parsed stalled_once))
            = False"
    by (simp add: demo_simps stalled_once_def)
  note t = stall_limit_and_budget[of "seeing [card_a, card_b]" "[card_a, card_b]" demo_lib
      demo_clock demo_params stalled_once "stalled_once\<lparr>no_progress := 2\<rparr>"
      "seeing [card_a, card_b]" "\<lambda>i. seeing [card_a, card_b]" 1 stalled_once
      "stalled_once\<lparr>no_progress := 2\<rparr>" Break 0 7 "[]" "{}"
      "\<lambda>i. if i < 3 then seeing [card_a, card_b] else failing_round"
      "\<lambda>i. failing_round" 0 fresh_state fresh_state OtherException 2]
  note c1 = t[THEN conjunct1]
  note c2 = t[THEN conjunct2, THEN conjunct1]
  note c3 = t[THEN conjunct2, THEN conjunct2, THEN conjunct1]
  note c4 = t[THEN conjunct2, THEN conjunct2, THEN conjunct2, THEN conjunct1]
  note c5 = t[THEN conjunct2, THEN conjunct2, THEN conjunct2, THEN conjunct2, THEN conjunct1]
  note c6 = t[THEN conjunct2, THEN conjunct2, THEN conjunct2, THEN conjunct2, THEN conjunct2]
  have n1: "no_progress stalled_once + 1 = 2"
    by (simp add: stalled_once_def)
  have t1: "no_progress (fst (extract_and_write demo_lib demo_clock demo_params (seeing [card_a, card_b])
                       stalled_once)) = 2"
    using mp[OF c1 conjI[OF e conjI[OF nr fl]], THEN conjunct1] unfolding w n1 by simp
  have t2: "stall_check_and_scroll demo_params (seeing [card_a, card_b]) (stalled_once\<lparr>no_progress := 2\<rparr>) =
     (stalled_once\<lparr>no_progress := 2\<rparr>, Break)"
    by (rule mp[OF c2 l])
  have tw: "total_written (stalled_once\<lparr>no_progress := 2\<rparr>) = 2"
    by (simp add: stalled_once_def)
  have t3: "rounds demo_lib demo_clock demo_params (\<lambda>i. seeing [card_a, card_b]) 1 (Suc 7) stalled_once =
     (stalled_once\<lparr>no_progress := 2\<rparr>, Inr 2)"
    using mp[OF c3 conjI[OF demo_stalled_round conjI[OF l disjI1[OF refl]]]] unfolding tw .
  have t4: "snd (snd (stream_scroll_collect demo_lib demo_clock demo_params
               (\<lambda>i. seeing [card_a, card_b]) [] {})) = Inr 2"
    using mp[OF c4 c] unfolding demo_collect by simp
  have t5: "stream_scroll_collect demo_lib demo_clock demo_params
     (\<lambda>i. if i < 3 then seeing [card_a, card_b] else failing_round) [] {} =
   stream_scroll_collect demo_lib demo_clock demo_params (\<lambda>i. seeing [card_a, card_b]) [] {}"
    by (rule mp[OF c5 m[symmetric], symmetric])
  have t6: "rounds demo_lib demo_clock demo_params (\<lambda>i. failing_round) 0 (Suc 2) fresh_state =
     (fresh_state, Inl OtherException)"
    by (rule mp[OF c6 demo_failing_round])
  from t1 l t2 t3 c t4 t5 t6 show ?thesis by blast
qed

section \<open>No cap\<close>






section \<open>A block without an operator\<close>

lemma visit_not_headful_stop:
  assumes "arg_headful A = False"
  shows "snd (visit L clock A idx src st) \<noteq> Inr Stop"
proof -
  have s: "snd (scrape_source L clock A idx src st) \<noteq> Inr Stop"
    by (auto simp: scrape_source_def Let_def split: sum.splits option.splits prod.splits)
  show ?thesis
    using s assms
    by (auto simp: visit_def handle_captcha_interactive_def split: option.splits)
qed

text \<open>
  Claim C8, as stated, fails: it says that whenever the detector reports a block in a run
  without an operator the blocked source ends with zero records emitted for it. The
  detector also runs at the start of every round; here it reports the block in the second
  round, after the first round has written a row for the source, and the source ends with
  one record.
\<close>

theorem blocked_later_keeps_rows_counterexample:
  "arg_headful demo_args = False \<and>
   detect_captcha_or_block demo_lib (r_page (s_rounds source_blocked_later 1)) \<and>
   main demo_lib demo_clock demo_args [] [source_blocked_later] =
     \<lparr>sink = [row_a], seen = {''unknown|u1|2024-01-02T03:04|5|good''},
      printed = [Written 1 ''/org/a/1'' 1]\<rparr>"
  by (simp add: demo_simps source_blocked_later_def blocked_round_def)

text \<open>
  Claim C8, amended. In a run without an operator (not headful) the recovery handler
  answers "skip" at once, reading no input. When the detector reports the block after the
  navigation, the source is skipped with zero records emitted for it (file and key set
  unchanged, the skip reported) and the run goes on with the next source. When the detector
  reports the block at the start of a round of the collection loop, the loop returns at
  once with the count written so far: no record is emitted for the source from then on, the
  records of earlier rounds stay. Whatever happens, such a run is never stopped by a block:
  the visit of a source never asks to stop the run.
\<close>

theorem block_without_operator_skips:
  "handle_captcha_interactive L False inp = (Inr ''skip'', inp) \<and>
   (arg_headful A = False \<and> s_goto src = None \<and> detect_captcha_or_block L (s_page src) \<longrightarrow>
    visit_guarded L clock A idx src st =
      (st\<lparr>printed := printed st @ [SkipCaptcha idx (s_url src)]\<rparr>, Proceed) \<and>
    main_loop L clock A idx (src # srcs) st =
      main_loop L clock A (Suc idx) srcs (st\<lparr>printed := printed st @ [SkipCaptcha idx (s_url src)]\<rparr>)) \<and>
   (headful P = False \<and> detect_captcha_or_block L (r_page (obs i)) \<longrightarrow>
    rounds L clock P obs i (Suc n) s = (s, Inr (total_written s))) \<and>
   (arg_headful A = False \<longrightarrow> snd (visit L clock A idx src1 st1) \<noteq> Inr Stop)"
proof -
  have a: "handle_captcha_interactive L False inp = (Inr ''skip'', inp)"
    by (simp add: handle_captcha_interactive_def)
  have b: "arg_headful A = False \<and> s_goto src = None \<and> detect_captcha_or_block L (s_page src) \<longrightarrow>
    visit_guarded L clock A idx src st =
      (st\<lparr>printed := printed st @ [SkipCaptcha idx (s_url src)]\<rparr>, Proceed) \<and>
    main_loop L clock A idx (src # srcs) st =
      main_loop L clock A (Suc idx) srcs (st\<lparr>printed := printed st @ [SkipCaptcha idx (s_url src)]\<rparr>)"
    by (simp add: visit_guarded_def visit_def handle_captcha_interactive_def)
  have c: "headful P = False \<and> detect_captcha_or_block L (r_page (obs i)) \<longrightarrow>
    rounds L clock P obs i (Suc n) s = (s, Inr (total_written s))"
    by (simp add: collect_round_def handle_captcha_interactive_def)
  have d: "arg_headful A = False \<longrightarrow> snd (visit L clock A idx src1 st1) \<noteq> Inr Stop"
    using visit_not_headful_stop by blast
  from a b c d show ?thesis by blast
qed

lemma demo_blocked_source:
  "main demo_lib demo_clock demo_args [] [source_blocked, source_a] =
    \<lparr>sink = [row_a, row_b],
     seen = {''unknown|u2|2024-02-03|n/a|bad'', ''unknown|u1|2024-01-02T03:04|5|good''},
     printed = [SkipCaptcha 1 ''/org/b/2'', Written 2 ''/org/a/1'' 2]\<rparr>"
  by (simp add: demo_simps source_blocked_def)

theorem block_without_operator_skips_witness:
  "arg_headful demo_args = False \<and> s_goto source_blocked = None \<and>
   detect_captcha_or_block demo_lib (s_page source_blocked) \<and>
   visit_guarded demo_lib demo_clock demo_args 1 source_blocked
       \<lparr>sink = [], seen = {}, printed = []\<rparr> =
     (\<lparr>sink = [], seen = {}, printed = [SkipCaptcha 1 ''/org/b/2'']\<rparr>, Proceed) \<and>
   headful demo_params = False \<and>
   detect_captcha_or_block demo_lib (r_page blocked_round) \<and>
   rounds demo_lib demo_clock demo_params (\<lambda>i. blocked_round) 1 (Suc 1) after_card_a =
     (after_card_a, Inr 1) \<and>
   snd (visit demo_lib demo_clock demo_args 1 source_blocked_later
          \<lparr>sink = [], seen = {}, printed = []\<rparr>) \<noteq> Inr Stop"
proof -
  have h: "arg_headful demo_args = False" by (simp add: demo_args_def)
  have g: "s_goto source_blocked = None" by (simp add: source_blocked_def source_a_def)
  have d: "detect_captcha_or_block demo_lib (s_page source_blocked)"
    by (simp add: source_blocked_def source_a_def demo_blocked)
  have hp: "headful demo_params = False" by (simp add: demo_params_def)
  have dr: "detect_captcha_or_block demo_lib (r_page blocked_round)"
    by (simp add: blocked_round_def demo_blocked)
  note t = block_without_operator_skips[of demo_lib "[]" demo_args source_blocked demo_clock 1
      "\<lparr>sink = [], seen = {}, printed = []\<rparr>" "[]" demo_params "\<lambda>i. blocked_round" 1 1
      after_card_a source_blocked_later "\<lparr>sink = [], seen = {}, printed = []\<rparr>"]
  have v: "visit_guarded demo_lib demo_clock demo_args 1 source_blocked
       \<lparr>sink = [], seen = {}, printed = []\<rparr> =
     (\<lparr>sink = [], seen = {}, printed = [SkipCaptcha 1 ''/org/b/2'']\<rparr>, Proceed)"
    using mp[OF t[THEN conjunct2, THEN conjunct1] conjI[OF h conjI[OF g d]], THEN conjunct1]
    by (simp add: source_blocked_def source_a_def)
  have tw: "total_written after_card_a = 1" by (simp add: after_card_a_def)
  have r: "rounds demo_lib demo_clock demo_params (\<lambda>i. blocked_round) 1 (Suc 1) after_card_a =
     (after_card_a, Inr 1)"
    using mp[OF t[THEN conjunct2, THEN conjunct2, THEN conjunct1] conjI[OF hp dr]]
    unfolding tw .
  note n = mp[OF t[THEN conjunct2, THEN conjunct2, THEN conjunct2] h]
  from h g d v hp dr r n show ?thesis by blast
qed

section \<open>The operator's quit\<close>

lemma demo_quit: "handle_captcha_interactive demo_lib True types_q = (Inr ''quit'', [])"
  by (simp add: handle_captcha_interactive_def types_q_def demo_lib_def)

text \<open>
  Claim C4. The claim asks that the operator's "quit" stops the whole run, at the
  navigation-time block check and at the block check inside the round loop alike. The code
  does so only at navigation: there \<^verbatim>\<open>main\<close> breaks out of its loop, and the second source is
  never visited. Inside the round loop "quit" is answered like "skip" (line 423 returns the
  count), \<^verbatim>\<open>main\<close> cannot tell the two apart, reports the source as written and goes on to
  the next source. Evaluated on two sources, the operator typing \<open>q\<close> on the first:
\<close>

theorem quit_in_round_does_not_stop_run:
  "main demo_lib demo_clock operator_args [] [source_quit_at_navigation, source_a] =
     \<lparr>sink = [], seen = {}, printed = [QuitRequested]\<rparr> \<and>
   fst (handle_captcha_interactive demo_lib (arg_headful operator_args)
          (r_operator (s_rounds source_quit_in_round 0))) = Inr ''quit'' \<and>
   main demo_lib demo_clock operator_args [] [source_quit_in_round, source_a] =
     \<lparr>sink = [row_a, row_b],
      seen = {''unknown|u2|2024-02-03|n/a|bad'', ''unknown|u1|2024-01-02T03:04|5|good''},
      printed = [Written 1 ''/org/b/2'' 0, Written 2 ''/org/a/1'' 2]\<rparr>"
  by (simp add: demo_simps operator_args_def types_q_def source_quit_in_round_def
        source_quit_at_navigation_def blocked_round_def)

lemma quit_at_navigation_stops:
  assumes "s_goto src = None" and "detect_captcha_or_block L (s_page src)"
    and "fst (handle_captcha_interactive L (arg_headful A) (s_operator src)) = Inr ''quit''"
  shows "main_loop L clock A idx (src # srcs) st = st\<lparr>printed := printed st @ [QuitRequested]\<rparr>"
  using assms by (simp add: visit_guarded_def visit_def)

lemma quit_in_round_is_skip:
  assumes "detect_captcha_or_block L (r_page r)"
    and "fst (handle_captcha_interactive L (headful P) (r_operator r)) = Inr ''quit''"
    and "fst (handle_captcha_interactive L (headful P) (r_operator r')) = Inr ''skip''"
    and "r_page r' = r_page r"
  shows "collect_round L clock P r s = collect_round L clock P r' s"
  using assms by (simp add: collect_round_def)

end
